theory Spec2Isabelle
  imports Complex_Main
begin

section \<open>MapView: a shallow embedding of src/components/MapView.tsx\<close>

text \<open>
  JavaScript numbers are modelled as mathematical reals (\<open>real\<close>), and integers that
  the code obtains by \<open>Math.round\<close> as \<open>int\<close>. A number that may be absent from a
  loaded JSON entry (\<open>undefined\<close>) or that is not a number (\<open>NaN\<close>) is \<open>None\<close> of
  \<open>real option\<close>.
\<close>

subsection \<open>Cluster icon builder (makeClusterIcon)\<close>

text \<open>\<open>Math.round\<close> rounds to the nearest integer, a half towards plus infinity.\<close>

definition Math_round :: "real \<Rightarrow> int" where
  "Math_round x = \<lfloor>x + 1 / 2\<rfloor>"

text \<open>
  The local constant \<open>size\<close> of \<open>makeClusterIcon\<close>. The argument is the child count of
  a cluster, an integer (at least 2 in the clustering library).
\<close>

definition cluster_size :: "int \<Rightarrow> real" where
  "cluster_size count =
     (let baseSize = 32; maxSize = 48; minCount = 2; maxCount = 100
      in baseSize +
         min (sqrt (of_int count - minCount) / sqrt (maxCount - minCount) * (maxSize - baseSize))
             (maxSize - baseSize))"

text \<open>
  The icon that \<open>makeClusterIcon\<close> returns. The fields \<open>h_width\<close> .. \<open>h_count\<close> are
  the numbers substituted for the placeholders \<open>{width}\<close>, \<open>{height}\<close>,
  \<open>{innerWidth}\<close>, \<open>{fontSize}\<close> and \<open>{count}\<close> of the HTML template.
\<close>

record ClusterIcon =
  h_width :: int
  h_height :: int
  h_innerWidth :: int
  h_fontSize :: int
  h_count :: int
  className :: string
  iconSize :: "int \<times> int"
  iconAnchor :: "real \<times> real"

definition makeClusterIcon :: "int \<Rightarrow> ClusterIcon" where
  "makeClusterIcon count =
     (let baseSize = 32;
          size = cluster_size count;
          width = max (Math_round size) baseSize;
          height = width;
          innerWidth = Math_round (of_int width * 0.8);
          fontSize = max 11 (min 14 (Math_round (of_int width * 0.35)))
      in \<lparr> h_width = width, h_height = height, h_innerWidth = innerWidth,
           h_fontSize = fontSize, h_count = count, className = [],
           iconSize = (width, width),
           iconAnchor = (of_int width / 2, of_int width / 2) \<rparr>)"

text \<open>
  The descriptor as the specification words it (section 4.4): the diameter is the
  unrounded value, and the inner diameter and the font size are computed from it.
\<close>

definition spec_diameter :: "int \<Rightarrow> real" where
  "spec_diameter count = 32 + min (sqrt (of_int count - 2) / sqrt 98 * (48 - 32)) (48 - 32)"

definition spec_inner :: "int \<Rightarrow> int" where
  "spec_inner count = round (spec_diameter count * 0.8)"

definition spec_fontSize :: "int \<Rightarrow> int" where
  "spec_fontSize count = max 11 (min 14 (round (spec_diameter count * 0.35)))"

subsection \<open>Data model\<close>

text \<open>
  \<open>MarkerData\<close> is one entry of the loaded JSON array. The TypeScript type declares
  \<open>lat\<close> and \<open>lon\<close> as numbers, but nothing checks the loaded data, so an entry may
  lack them: \<open>None\<close> is the missing field. The field \<open>id\<close> is \<open>m_id\<close> here.
\<close>

record MarkerData =
  m_id :: "int option"
  lat :: "real option"
  lon :: "real option"
  title :: "string option"
  description :: "string option"
  url :: string

record ClusterData =
  clusterId :: string
  markers :: "MarkerData list"
  c_lat :: "real option"
  c_lon :: "real option"

text \<open>\<open>String(n)\<close> for an integer, and for \<open>undefined\<close>.\<close>

fun digits10 :: "nat \<Rightarrow> string" where
  "digits10 n =
     (if n < 10 then [char_of (48 + n)] else digits10 (n div 10) @ [char_of (48 + n mod 10)])"

definition String_int :: "int \<Rightarrow> string" where
  "String_int i = (if i < 0 then CHR ''-'' # digits10 (nat (- i)) else digits10 (nat i))"

definition String_id :: "int option \<Rightarrow> string" where
  "String_id v = (case v of None \<Rightarrow> ''undefined'' | Some i \<Rightarrow> String_int i)"

text \<open>
  Arithmetic on numbers that may be \<open>undefined\<close> or \<open>NaN\<close>: a sum with such an
  operand is \<open>NaN\<close>. The only division of the code divides by the length of an array;
  the divisor is zero only for the empty array, where the dividend is 0 and the quotient
  is \<open>NaN\<close>.
\<close>

definition js_add :: "real option \<Rightarrow> real option \<Rightarrow> real option" where
  "js_add a b = (case a of None \<Rightarrow> None | Some x \<Rightarrow> (case b of None \<Rightarrow> None | Some y \<Rightarrow> Some (x + y)))"

definition js_div_length :: "real option \<Rightarrow> nat \<Rightarrow> real option" where
  "js_div_length a n = (case a of None \<Rightarrow> None | Some x \<Rightarrow> if n = 0 then None else Some (x / real n))"

subsection \<open>Asset loader (loadScript, loadCss)\<close>

text \<open>
  The document, as far as the loader reads and writes it: the \<open>src\<close> attributes of
  its script elements and the \<open>href\<close> attributes of its link elements, in document
  order. The argument of the loader is a URL; the characters that would end or escape
  the quoted string of the attribute selector (double quote, backslash, line break) do
  not occur in a URL, so \<open>querySelector\<close> with \<open>script[src="..."]\<close> finds an element
  exactly when some script element has that \<open>src\<close> attribute.

  When a script element is appended, the browser later fires its \<open>onload\<close> or its
  \<open>onerror\<close> handler; which one is the environment's choice (\<open>script_event\<close>).
\<close>

record document =
  scripts :: "string list"
  links :: "string list"

datatype script_event = Onload | Onerror

datatype promise = Resolved | Rejected

definition loadScript :: "string \<Rightarrow> script_event \<Rightarrow> document \<Rightarrow> document \<times> promise" where
  "loadScript src ev doc =
     (if src \<in> set (scripts doc) then (doc, Resolved)
      else (doc\<lparr>scripts := scripts doc @ [src]\<rparr>,
            case ev of Onload \<Rightarrow> Resolved | Onerror \<Rightarrow> Rejected))"

definition loadCss :: "string \<Rightarrow> document \<Rightarrow> document" where
  "loadCss href doc =
     (if href \<in> set (links doc) then doc else doc\<lparr>links := links doc @ [href]\<rparr>)"




subsection \<open>Library load effect\<close>

text \<open>
  What the effect reads of the global \<open>window.L\<close>: absent (falsy), present without the
  clustering extension (\<open>typeof window.L.markerClusterGroup\<close> is not \<open>"function"\<close>),
  or present with it. The environment fixes the events of the script elements and the
  value of \<open>window.L\<close> at the two places where the effect reads it: after the 100 ms
  delay, and after the retry has been awaited.
\<close>

datatype window_L = L_undefined | L_without_plugin | L_with_plugin

record load_env =
  leaflet_event :: script_event
  cluster_event :: script_event
  retry_event :: script_event
  L_after_delay :: window_L
  L_after_retry :: window_L

datatype action =
    SetLoading bool
  | CssCall string
  | ScriptCall string
  | Console_log string
  | Console_warn string
  | Console_error string
  | MountMap

definition leaflet_css :: string where
  "leaflet_css = ''https://unpkg.com/leaflet/dist/leaflet.css''"

definition cluster_css :: string where
  "cluster_css = ''https://unpkg.com/leaflet.markercluster/dist/MarkerCluster.Default.css''"

definition leaflet_js :: string where
  "leaflet_js = ''https://unpkg.com/leaflet/dist/leaflet.js''"

definition cluster_js :: string where
  "cluster_js = ''https://unpkg.com/leaflet.markercluster/dist/leaflet.markercluster.js''"

text \<open>The \<open>catch\<close> and \<open>finally\<close> blocks of \<open>load\<close>.\<close>

definition load_catch :: "action list \<Rightarrow> action list" where
  "load_catch tr = tr @ [Console_error ''Error loading map libraries:'', SetLoading False]"

text \<open>
  The last statement of the \<open>try\<close> block, with the value \<open>L\<close> of \<open>window.L\<close> that it
  reads and the loaded marker list \<open>ms\<close>, followed by the \<open>finally\<close> block.
\<close>

definition load_mount :: "MarkerData list \<Rightarrow> window_L \<Rightarrow> action list \<Rightarrow> action list" where
  "load_mount ms L tr =
     (if L = L_with_plugin \<and> length ms > 0 then tr @ [MountMap, SetLoading False]
      else tr @ [Console_error ''Cannot mount map: Libraries not loaded properly'',
                 SetLoading False])"

text \<open>
  The function \<open>load\<close> of the effect: the document it leaves and the trace of its
  calls of the loader, of the console, of \<open>setLoading\<close> and of \<open>mountMap\<close>. Reading
  \<open>window.L.markerClusterGroup\<close> when \<open>window.L\<close> is absent throws, which the
  \<open>catch\<close> block handles.
\<close>

definition load :: "MarkerData list \<Rightarrow> load_env \<Rightarrow> document \<Rightarrow> document \<times> action list" where
  "load ms env doc0 =
     (let doc1 = loadCss leaflet_css doc0;
          doc2 = loadCss cluster_css doc1;
          tr0 = [SetLoading True, CssCall leaflet_css, CssCall cluster_css];
          (doc3, p1) = loadScript leaflet_js (leaflet_event env) doc2;
          tr1 = tr0 @ [ScriptCall leaflet_js]
      in if p1 = Rejected then (doc3, load_catch tr1)
         else
          let (doc4, p2) = loadScript cluster_js (cluster_event env) doc3;
              tr2 = tr1 @ [Console_log ''Leaflet loaded successfully'', ScriptCall cluster_js]
          in if p2 = Rejected then (doc4, load_catch tr2)
             else
              let tr3 = tr2 @ [Console_log ''MarkerCluster loaded successfully'']
              in (case L_after_delay env of
                    L_with_plugin \<Rightarrow>
                      (doc4, load_mount ms L_with_plugin
                         (tr3 @ [Console_log ''Leaflet and MarkerCluster loaded successfully.'']))
                  | L_undefined \<Rightarrow>
                      (doc4, load_mount ms L_undefined
                         (tr3 @ [Console_error ''Leaflet (window.L) failed to load!'']))
                  | L_without_plugin \<Rightarrow>
                      (let (doc5, p3) = loadScript cluster_js (retry_event env) doc4;
                           tr4 = tr3 @ [Console_warn ''MarkerCluster plugin missing!'',
                                        ScriptCall cluster_js]
                       in if p3 = Rejected \<or> L_after_retry env = L_undefined
                          then (doc5, load_catch tr4)
                          else (doc5, load_mount ms (L_after_retry env)
                                  (tr4 @ [Console_log
                                     (''Attempted to reload MarkerCluster. Status: '' @
                                      (if L_after_retry env = L_with_plugin
                                       then ''Success'' else ''Failed''))])))))"

subsection \<open>Map mount: markers and click handlers (mountMap)\<close>

text \<open>
  A marker of the clustering layer: its position and the \<open>markerData\<close> that
  \<open>mountMap\<close> stores in its options.
\<close>

record Marker =
  latlng :: "real option \<times> real option"
  markerData :: MarkerData

text \<open>\<open>!v\<close> for a number that may be missing: true for \<open>undefined\<close>, \<open>NaN\<close> and 0.\<close>

definition falsy :: "real option \<Rightarrow> bool" where
  "falsy v = (v = None \<or> v = Some 0)"

text \<open>The loop \<open>markers.forEach\<close> of \<open>mountMap\<close>: the markers added to the layer.\<close>

definition mountMap_markers :: "MarkerData list \<Rightarrow> Marker list" where
  "mountMap_markers ms =
     foldl (\<lambda>layer m.
        if falsy (lat m) \<or> falsy (lon m) then layer
        else layer @ [\<lparr> latlng = (lat m, lon m), markerData = m \<rparr>]) [] ms"

text \<open>The entries for which the loop of \<open>mountMap\<close> adds a marker.\<close>

definition renderable :: "MarkerData \<Rightarrow> bool" where
  "renderable m = (\<not> (falsy (lat m) \<or> falsy (lon m)))"

text \<open>The object that the click handler of the marker of \<open>m\<close> passes to \<open>setSelectedCluster\<close>.\<close>

definition markerClick :: "MarkerData \<Rightarrow> ClusterData" where
  "markerClick m =
     \<lparr> clusterId = String_id (m_id m), markers = [m], c_lat = lat m, c_lon = lon m \<rparr>"

text \<open>
  The \<open>clusterclick\<close> handler, for a cluster with the internal id \<open>leaflet_id\<close> whose
  \<open>getAllChildMarkers()\<close> is \<open>children\<close>: the object passed to \<open>setSelectedCluster\<close>.
\<close>

definition clusterclick :: "int \<Rightarrow> Marker list \<Rightarrow> ClusterData" where
  "clusterclick leaflet_id children =
     (let (contained, sumLat, sumLng) =
            foldl (\<lambda>(contained, avgLat, avgLng) marker.
                     (contained @ [markerData marker],
                      js_add avgLat (lat (markerData marker)),
                      js_add avgLng (lon (markerData marker))))
                  ([], Some 0, Some 0) children;
          avgLat = js_div_length sumLat (length children);
          avgLng = js_div_length sumLng (length children)
      in \<lparr> clusterId = String_int leaflet_id, markers = contained,
           c_lat = avgLat, c_lon = avgLng \<rparr>)"

subsection \<open>Selection and pagination state of the component\<close>

definition MARKERS_PER_PAGE :: nat where
  "MARKERS_PER_PAGE = 25"

text \<open>
  The state variables of \<open>MapView\<close> that the panel depends on. React compares a
  dependency of an effect by identity (\<open>Object.is\<close>); every click handler builds a new
  object, so the selected cluster carries the reference of its object beside its
  contents.

  Three effects of the component read or write these variables and are modelled below:
  the reset effect, the page effect and the scroll effect. The effect that reloads the
  embed widget and the effect that listens for a pointer press outside the panel set no
  state; the second is the source of the event \<open>ClosePanel\<close>.
\<close>

record vars =
  selectedCluster :: "(nat \<times> ClusterData) option"
  visibleMarkers :: "MarkerData list"
  page :: nat
  hasMore :: bool
  showPanel :: bool
  loadingMore :: bool

text \<open>
  A pending \<open>setTimeout\<close> callback with the values its closure has captured: the
  callback of the page effect (with the \<open>page\<close> and the \<open>selectedCluster\<close> of the render
  that ran the effect), and the callback of \<open>closePanel\<close>.
\<close>

datatype timeout = Reveal nat ClusterData | Close

text \<open>
  The component between two events:
  \<^item> \<open>cur\<close>: the state variables with every queued \<open>setState\<close> applied;
  \<^item> \<open>rendered\<close>: the state variables of the last committed render (\<open>None\<close> before
    the first), against which the dependencies of the effects are compared;
  \<^item> \<open>timeouts\<close>: the pending callbacks, oldest first. Both \<open>setTimeout\<close> calls have
    the delay 300 ms, so the callbacks run in the order in which they were scheduled;
  \<^item> \<open>listener\<close>: the values of \<open>loadingMore\<close> and \<open>hasMore\<close> captured by the
    \<open>handleScroll\<close> that is attached to the scroll container of the rendered panel, if
    one is attached;
  \<^item> \<open>fresh\<close>: the next unused object reference.
\<close>

record component =
  cur :: vars
  rendered :: "vars option"
  timeouts :: "timeout list"
  listener :: "(bool \<times> bool) option"
  fresh :: nat

definition sel_ref :: "vars \<Rightarrow> nat option" where
  "sel_ref v = map_option fst (selectedCluster v)"

text \<open>A dependency has changed since the last render (on mount every effect runs).\<close>

definition changed :: "(vars \<Rightarrow> 'a) \<Rightarrow> vars option \<Rightarrow> vars \<Rightarrow> bool" where
  "changed dep prev v = (case prev of None \<Rightarrow> True | Some p \<Rightarrow> dep p \<noteq> dep v)"

text \<open>
  The effect "reset pagination when selected cluster changes", run in a render with the
  state \<open>v\<close>: its \<open>setState\<close> calls, applied to the queued state \<open>u\<close>.
\<close>

definition effect_reset :: "vars \<Rightarrow> vars \<Rightarrow> vars" where
  "effect_reset v u =
     (case selectedCluster v of
        Some (r, c) \<Rightarrow>
          u\<lparr> page := 1,
             visibleMarkers := take MARKERS_PER_PAGE (markers c),
             hasMore := (length (markers c) > MARKERS_PER_PAGE) \<rparr>
      | None \<Rightarrow> u\<lparr> visibleMarkers := [], hasMore := False \<rparr>)"

text \<open>
  The effect "load more markers when page changes", run in a render with the state \<open>v\<close>:
  it sets \<open>loadingMore\<close> and schedules the callback, which captures \<open>page\<close> and
  \<open>selectedCluster\<close> of that render. The effect returns no cleanup, so the callback is
  never cancelled.
\<close>

definition effect_page :: "vars \<Rightarrow> component \<Rightarrow> component" where
  "effect_page v k =
     (case selectedCluster v of
        Some (r, c) \<Rightarrow>
          if page v > 1
          then k\<lparr> cur := (cur k)\<lparr> loadingMore := True \<rparr>,
                  timeouts := timeouts k @ [Reveal (page v) c] \<rparr>
          else k
      | None \<Rightarrow> k)"

text \<open>
  The scroll effect, run in a render with the state \<open>v\<close>: the cleanup of its previous
  run removes the old handler; \<open>scrollContainerRef.current\<close> is the scroll container of
  the panel, which is rendered exactly when \<open>selectedCluster\<close> is not null, and the new
  handler captures \<open>loadingMore\<close> and \<open>hasMore\<close> of this render.
\<close>

definition effect_scroll :: "vars \<Rightarrow> component \<Rightarrow> component" where
  "effect_scroll v k =
     k\<lparr> listener := (if selectedCluster v = None then None
                      else Some (loadingMore v, hasMore v)) \<rparr>"

text \<open>
  One render and commit. The render sees the state \<open>v\<close>; a panel that is no longer
  rendered takes its scroll container and the handler on it out of the document. Then
  the effects whose dependencies differ from those of the previous render run in the
  order of the source, all with the values of this render.
\<close>

definition commit :: "component \<Rightarrow> component" where
  "commit k =
     (let v = cur k;
          prev = rendered k;
          k0 = k\<lparr> rendered := Some v,
                  listener := (if selectedCluster v = None then None else listener k) \<rparr>;
          k1 = (if changed sel_ref prev v then k0\<lparr> cur := effect_reset v (cur k0) \<rparr> else k0);
          k2 = (if changed page prev v \<or> changed sel_ref prev v then effect_page v k1 else k1);
          k3 = (if changed hasMore prev v \<or> changed loadingMore prev v
                then effect_scroll v k2 else k2)
      in k3)"

text \<open>A component is settled when no queued state differs from the rendered one.\<close>

definition settled :: "component \<Rightarrow> bool" where
  "settled k = (rendered k = Some (cur k))"

lemma commit_rendered: "rendered (commit k) = Some (cur k)"
  by (simp add: commit_def Let_def effect_page_def effect_scroll_def
      split: option.splits prod.splits)

lemma commit_sel: "selectedCluster (cur (commit k)) = selectedCluster (cur k)"
  by (simp add: commit_def Let_def effect_page_def effect_scroll_def effect_reset_def
      split: option.splits prod.splits)

lemma commit_page: "page (cur (commit k)) = page (cur k) \<or> page (cur (commit k)) = 1"
  by (simp add: commit_def Let_def effect_page_def effect_scroll_def effect_reset_def
      split: option.splits prod.splits)

lemma commit_cur_unchanged:
  assumes "\<not> changed sel_ref (rendered k) (cur k)"
    and "\<not> changed page (rendered k) (cur k) \<or> page (cur k) \<le> 1"
  shows "cur (commit k) = cur k"
  using assms
  by (auto simp add: commit_def Let_def effect_page_def effect_scroll_def
      split: option.splits prod.splits)

text \<open>
  The second render after an event changes no state: the reset effect does not run
  again, and the page effect runs again only for the page 1, where it does nothing.
\<close>

lemma commit_commit_settled: "settled (commit (commit k))"
proof -
  let ?k = "commit k"
  have r: "rendered ?k = Some (cur k)" by (rule commit_rendered)
  have "sel_ref (cur ?k) = sel_ref (cur k)"
    by (simp add: sel_ref_def commit_sel)
  then have a: "\<not> changed sel_ref (rendered ?k) (cur ?k)"
    by (simp add: changed_def r)
  have b: "\<not> changed page (rendered ?k) (cur ?k) \<or> page (cur ?k) \<le> 1"
    using commit_page [of k] by (auto simp add: changed_def r)
  have "cur (commit ?k) = cur ?k"
    by (rule commit_cur_unchanged [OF a b])
  then show ?thesis
    by (simp add: settled_def commit_rendered)
qed

text \<open>React renders again as long as an effect has changed the state.\<close>

function settle :: "component \<Rightarrow> component" where
  "settle k = (if settled k then k else settle (commit k))"
  by pat_completeness auto
termination
proof (relation "measure (\<lambda>k. if settled k then 0 else if settled (commit k) then 1 else 2)")
  show "wf (measure (\<lambda>k. if settled k then 0 else if settled (commit k) then 1 else 2 :: nat))"
    by simp
next
  fix k
  assume "\<not> settled k"
  then show "(commit k, k) \<in> measure (\<lambda>k. if settled k then 0 else if settled (commit k) then 1 else 2 :: nat)"
    using commit_commit_settled [of k] by simp
qed

declare settle.simps [simp del]

text \<open>The component before its first render, and after mounting.\<close>

definition initial :: component where
  "initial =
     \<lparr> cur = \<lparr> selectedCluster = None, visibleMarkers = [], page = 1, hasMore = True,
               showPanel = False, loadingMore = False \<rparr>,
       rendered = None, timeouts = [], listener = None, fresh = 0 \<rparr>"

definition mounted :: component where
  "mounted = settle initial"

text \<open>
  The events of the panel:
  \<^item> \<open>Select c\<close>: a click on a marker or on a cluster, whose handler has built \<open>c\<close>;
  \<^item> \<open>ClosePanel\<close>: the close button, or a pointer press outside the panel;
  \<^item> \<open>Scroll scrollTop scrollHeight clientHeight\<close>: a scroll event on the scroll
    container, with its measures;
  \<^item> \<open>Timeout\<close>: the oldest pending callback runs.
\<close>

datatype event = Select ClusterData | ClosePanel | Scroll real real real | Timeout

definition handleScroll :: "bool \<times> bool \<Rightarrow> real \<Rightarrow> real \<Rightarrow> real \<Rightarrow> component \<Rightarrow> component" where
  "handleScroll closure scrollTop scrollHeight clientHeight k =
     (if fst closure \<or> \<not> snd closure then k
      else if scrollHeight - scrollTop - clientHeight < 100
           then k\<lparr> cur := (cur k)\<lparr> page := page (cur k) + 1 \<rparr> \<rparr>
           else k)"

definition closePanel :: "component \<Rightarrow> component" where
  "closePanel k =
     k\<lparr> cur := (cur k)\<lparr> showPanel := False \<rparr>, timeouts := timeouts k @ [Close] \<rparr>"

fun callback :: "timeout \<Rightarrow> vars \<Rightarrow> vars" where
  "callback (Reveal p c) u =
     (let endIndex = p * MARKERS_PER_PAGE;
          newVisibleMarkers = take endIndex (markers c)
      in u\<lparr> visibleMarkers := newVisibleMarkers,
            hasMore := (endIndex < length (markers c)),
            loadingMore := False \<rparr>)"
| "callback Close u = u\<lparr> selectedCluster := None, visibleMarkers := [], page := 1 \<rparr>"

text \<open>
  The handler of an event. The close button and the outside-press listener exist only
  while the panel is rendered; a scroll event reaches only an attached handler.
\<close>

fun handle :: "event \<Rightarrow> component \<Rightarrow> component" where
  "handle (Select c) k =
     k\<lparr> cur := (cur k)\<lparr> selectedCluster := Some (fresh k, c), showPanel := True \<rparr>,
        fresh := Suc (fresh k) \<rparr>"
| "handle ClosePanel k =
     (if selectedCluster (cur k) = None then k else closePanel k)"
| "handle (Scroll scrollTop scrollHeight clientHeight) k =
     (case listener k of
        None \<Rightarrow> k
      | Some closure \<Rightarrow> handleScroll closure scrollTop scrollHeight clientHeight k)"
| "handle Timeout k =
     (case timeouts k of
        [] \<Rightarrow> k
      | t # ts \<Rightarrow> k\<lparr> cur := callback t (cur k), timeouts := ts \<rparr>)"

text \<open>
  An event, followed by the renders it causes; a sequence of events. The renders and
  effects that follow an event are taken to complete before the next event is handled:
  React schedules them right after the handler, while timer callbacks (300 ms) and user
  events come later.
\<close>

definition step :: "event \<Rightarrow> component \<Rightarrow> component" where
  "step e k = settle (handle e k)"

definition run :: "event list \<Rightarrow> component \<Rightarrow> component" where
  "run es k = foldl (\<lambda>k e. step e k) k es"

text \<open>What the panel shows: the number of visible members, and the pending reveals.\<close>

definition revealedCount :: "component \<Rightarrow> nat" where
  "revealedCount k = length (visibleMarkers (cur k))"

fun is_Reveal :: "timeout \<Rightarrow> bool" where
  "is_Reveal (Reveal p c) = True"
| "is_Reveal Close = False"

definition reveals_in_flight :: "component \<Rightarrow> nat" where
  "reveals_in_flight k = length (filter is_Reveal (timeouts k))"

subsection \<open>Predicates on the component and on its runs\<close>

text \<open>
  A component is consistent when it is settled, its page is at least 1, the flag
  \<open>loadingMore\<close> is set exactly when one reveal is pending (and then only one is), the
  reference of the selected object is older than the next fresh one, and the scroll
  handler, if attached, belongs to a rendered panel and has captured the current values
  of \<open>loadingMore\<close> and \<open>hasMore\<close>.
\<close>

definition consistent :: "component \<Rightarrow> bool" where
  "consistent k =
     (settled k \<and> 1 \<le> page (cur k)
      \<and> reveals_in_flight k = (if loadingMore (cur k) then 1 else 0)
      \<and> (case selectedCluster (cur k) of
            None \<Rightarrow> listener k = None
          | Some (r, c) \<Rightarrow>
              r < fresh k
              \<and> (listener k = None
                 \<or> listener k = Some (loadingMore (cur k), hasMore (cur k)))))"

text \<open>
  A run is calm when no new selection is made while \<open>loadingMore\<close> is set. Scroll
  events, timeouts and closing the panel are not restricted.
\<close>

fun calm :: "event list \<Rightarrow> component \<Rightarrow> bool" where
  "calm [] k = True"
| "calm (e # es) k =
     ((case e of Select c \<Rightarrow> loadingMore (cur k) = False | _ \<Rightarrow> True) \<and> calm es (step e k))"

text \<open>
  The events that leave the selection as it is, and the pagination invariant of the
  specification for a Selection \<open>c\<close> with the first object reference: while no reveal
  is pending, \<open>page\<close> pages of \<open>c\<close> are visible and \<open>hasMore\<close> tells whether members
  are left; while the reveal of the current page is pending, the pages before it are
  visible.
\<close>

fun scroll_or_timeout :: "event \<Rightarrow> bool" where
  "scroll_or_timeout (Scroll scrollTop scrollHeight clientHeight) = True"
| "scroll_or_timeout Timeout = True"
| "scroll_or_timeout e = False"

definition paginated :: "ClusterData \<Rightarrow> component \<Rightarrow> bool" where
  "paginated c k =
     (settled k \<and> selectedCluster (cur k) = Some (0, c) \<and> 1 \<le> page (cur k)
      \<and> (listener k = None \<or> listener k = Some (loadingMore (cur k), hasMore (cur k)))
      \<and> (if loadingMore (cur k)
          then 2 \<le> page (cur k) \<and> timeouts k = [Reveal (page (cur k)) c]
               \<and> visibleMarkers (cur k) = take ((page (cur k) - 1) * MARKERS_PER_PAGE) (markers c)
          else timeouts k = []
               \<and> visibleMarkers (cur k) = take (page (cur k) * MARKERS_PER_PAGE) (markers c)
               \<and> hasMore (cur k) = (page (cur k) * MARKERS_PER_PAGE < length (markers c))))"

text \<open>
  States of the component, named for the lemmas on its runs: a Selection \<open>c\<close> opened on
  the mounted component and scrolled to the bottom, with the reveal of its second page
  pending (\<open>paging\<close>) and completed (\<open>paged\<close>); and the panel of a Selection \<open>c'\<close> that
  shows two pages of the Selection \<open>c\<close> before it (\<open>leaked\<close>).
\<close>

definition paging :: "ClusterData \<Rightarrow> component" where
  "paging c =
     \<lparr> cur = \<lparr> selectedCluster = Some (0, c),
               visibleMarkers = take MARKERS_PER_PAGE (markers c), page = 2,
               hasMore = True, showPanel = True, loadingMore = True \<rparr>,
       rendered = Some \<lparr> selectedCluster = Some (0, c),
               visibleMarkers = take MARKERS_PER_PAGE (markers c), page = 2,
               hasMore = True, showPanel = True, loadingMore = True \<rparr>,
       timeouts = [Reveal 2 c], listener = Some (True, True), fresh = 1 \<rparr>"

definition paged :: "ClusterData \<Rightarrow> component" where
  "paged c =
     \<lparr> cur = \<lparr> selectedCluster = Some (0, c),
               visibleMarkers = take (2 * MARKERS_PER_PAGE) (markers c), page = 2,
               hasMore = (2 * MARKERS_PER_PAGE < length (markers c)), showPanel = True,
               loadingMore = False \<rparr>,
       rendered = Some \<lparr> selectedCluster = Some (0, c),
               visibleMarkers = take (2 * MARKERS_PER_PAGE) (markers c), page = 2,
               hasMore = (2 * MARKERS_PER_PAGE < length (markers c)), showPanel = True,
               loadingMore = False \<rparr>,
       timeouts = [],
       listener = Some (False, 2 * MARKERS_PER_PAGE < length (markers c)), fresh = 1 \<rparr>"

definition leaked :: "ClusterData \<Rightarrow> ClusterData \<Rightarrow> component" where
  "leaked c c' =
     \<lparr> cur = \<lparr> selectedCluster = Some (1, c'),
               visibleMarkers = take (2 * MARKERS_PER_PAGE) (markers c), page = 1,
               hasMore = (2 * MARKERS_PER_PAGE < length (markers c)), showPanel = True,
               loadingMore = False \<rparr>,
       rendered = Some \<lparr> selectedCluster = Some (1, c'),
               visibleMarkers = take (2 * MARKERS_PER_PAGE) (markers c), page = 1,
               hasMore = (2 * MARKERS_PER_PAGE < length (markers c)), showPanel = True,
               loadingMore = False \<rparr>,
       timeouts = [Close, Reveal 2 c'],
       listener = Some (False, 2 * MARKERS_PER_PAGE < length (markers c)), fresh = 2 \<rparr>"

subsection \<open>Example inputs\<close>



definition example_point :: "int \<Rightarrow> MarkerData" where
  "example_point i =
     \<lparr> m_id = Some i, lat = Some (of_int i), lon = Some (2 * of_int i), title = None,
       description = None, url = ''/r/test/1'' \<rparr>"

definition zero_point :: MarkerData where
  "zero_point =
     \<lparr> m_id = None, lat = Some 0, lon = Some 0, title = None, description = None,
       url = ''/r/test/1'' \<rparr>"

definition example_points :: "MarkerData list" where
  "example_points = [example_point 10, zero_point, example_point 20]"

text \<open>
  The Selection that the cluster handler builds for a cluster of the \<open>n\<close> points with
  the ids \<open>a\<close>, ..., \<open>a + n - 1\<close>; a scroll event at the bottom of the container.
\<close>

definition example_cluster :: "nat \<Rightarrow> nat \<Rightarrow> ClusterData" where
  "example_cluster a n =
     clusterclick 7 (mountMap_markers (map (\<lambda>i. example_point (int i)) [a..<a + n]))"

definition near_bottom :: event where
  "near_bottom = Scroll 5700 6100 400"

definition example_scrolls :: "event list" where
  "example_scrolls = [Select (example_cluster 1 30), near_bottom, near_bottom]"

text \<open>
  Event sequences: a selection replaced after paging; the panel closed and another
  selection opened while a reveal is pending; a selection replaced while a reveal is
  pending; and the panel closed, reopened and left until every callback has run.
\<close>

definition replace_after_paging :: "event list" where
  "replace_after_paging =
     [Select (example_cluster 1 30), near_bottom, Timeout, Select (example_cluster 101 60),
      Timeout]"

definition close_and_reopen :: "event list" where
  "close_and_reopen =
     [Select (example_cluster 1 60), near_bottom, ClosePanel, Select (example_cluster 101 3),
      Timeout]"

definition replace_while_loading :: "event list" where
  "replace_while_loading =
     [Select (example_cluster 1 60), near_bottom, Select (example_cluster 101 60), Timeout]"

definition reopen_then_closed :: "event list" where
  "reopen_then_closed =
     [Select (example_cluster 1 60), near_bottom, ClosePanel, Select (example_cluster 101 60),
      Timeout, Timeout, Timeout]"

text \<open>A scroll to the bottom after a selection replaced while a reveal was pending.\<close>

definition scroll_after_replacing :: "event list" where
  "scroll_after_replacing =
     [Select (example_cluster 1 80), near_bottom, Select (example_cluster 101 80), Timeout,
      near_bottom]"

section \<open>Properties\<close>

subsection \<open>Cluster icon builder\<close>

lemma cluster_size_eq: "cluster_size count = spec_diameter count"
  by (simp add: cluster_size_def spec_diameter_def)

lemma spec_diameter_lower: "2 \<le> count \<Longrightarrow> 32 \<le> spec_diameter count"
  by (simp add: spec_diameter_def)

lemma spec_diameter_upper: "spec_diameter count \<le> 48"
  by (simp add: spec_diameter_def)

lemma spec_diameter_mono:
  assumes "c1 \<le> c2"
  shows "spec_diameter c1 \<le> spec_diameter c2"
proof -
  have "sqrt (of_int c1 - 2) \<le> sqrt (of_int c2 - 2)"
    using assms by simp
  then have "sqrt (of_int c1 - 2) / sqrt 98 * 16 \<le> sqrt (of_int c2 - 2) / sqrt 98 * 16"
    by (simp add: divide_right_mono)
  then show ?thesis
    by (simp add: spec_diameter_def min_le_iff_disj)
qed

lemma Math_round_mono: "x \<le> y \<Longrightarrow> Math_round x \<le> Math_round y"
  by (simp add: Math_round_def floor_mono)

lemma Math_round_bounds:
  "real_of_int lo \<le> x \<Longrightarrow> x \<le> real_of_int hi \<Longrightarrow> lo \<le> Math_round x \<and> Math_round x \<le> hi"
  unfolding Math_round_def by (simp add: le_floor_iff floor_le_iff)

lemma sqrt_ratio_7: "sqrt 5 / sqrt 98 * 16 = sqrt (640 / 49)"
proof -
  have "sqrt 5 / sqrt 98 * 16 = sqrt (5 / 98) * sqrt 256"
    by (simp add: real_sqrt_divide)
  also have "\<dots> = sqrt (5 / 98 * 256)"
    by (simp only: real_sqrt_mult)
  finally show ?thesis by simp
qed

lemma sqrt_7_lower: "7 / 2 \<le> sqrt (640 / 49 :: real)"
  by (rule real_le_rsqrt) (simp add: power2_eq_square)

lemma sqrt_7_upper: "sqrt (640 / 49 :: real) < 29 / 8"
  by (rule real_less_lsqrt) (simp_all add: power2_eq_square)

lemma spec_diameter_7: "spec_diameter 7 = 32 + sqrt (640 / 49)"
proof -
  have "sqrt (640 / 49 :: real) \<le> 16"
    using sqrt_7_upper by linarith
  then show ?thesis
    unfolding spec_diameter_def using sqrt_ratio_7 by simp
qed

lemma Math_round_diameter_7: "Math_round (spec_diameter 7) = 36"
  unfolding Math_round_def spec_diameter_7 floor_eq_iff
  using sqrt_7_lower sqrt_7_upper by simp

lemma makeClusterIcon_7_width: "h_width (makeClusterIcon 7) = 36"
  by (simp add: makeClusterIcon_def cluster_size_eq Math_round_diameter_7 Let_def)

lemma makeClusterIcon_7_inner: "h_innerWidth (makeClusterIcon 7) = 29"
proof -
  have "Math_round (36 * 0.8) = 29"
    unfolding Math_round_def floor_eq_iff by simp
  then show ?thesis
    by (simp add: makeClusterIcon_def cluster_size_eq Math_round_diameter_7 Let_def)
qed

lemma spec_inner_7: "spec_inner 7 = 28"
  unfolding spec_inner_def round_def spec_diameter_7
  using sqrt_7_lower sqrt_7_upper by (simp add: floor_eq_iff field_simps)

lemma makeClusterIcon_width_round:
  assumes "2 \<le> count"
  shows "h_width (makeClusterIcon count) = Math_round (spec_diameter count)"
proof -
  have "real_of_int 32 \<le> spec_diameter count"
    using spec_diameter_lower [OF assms] by simp
  then have "32 \<le> Math_round (spec_diameter count)"
    unfolding Math_round_def le_floor_iff by linarith
  then show ?thesis
    by (simp add: makeClusterIcon_def cluster_size_eq Let_def)
qed

lemma makeClusterIcon_width_bounds:
  assumes "2 \<le> count"
  shows "32 \<le> h_width (makeClusterIcon count) \<and> h_width (makeClusterIcon count) \<le> 48"
proof -
  have "real_of_int 32 \<le> spec_diameter count" "spec_diameter count \<le> real_of_int 48"
    using spec_diameter_lower [OF assms] spec_diameter_upper [of count] by simp_all
  then show ?thesis
    unfolding makeClusterIcon_width_round [OF assms] by (rule Math_round_bounds)
qed

lemma makeClusterIcon_7_fontSize: "h_fontSize (makeClusterIcon 7) = 13"
proof -
  have "Math_round (36 * 0.35) = 13"
    unfolding Math_round_def floor_eq_iff by simp
  then show ?thesis
    by (simp add: makeClusterIcon_def cluster_size_eq Math_round_diameter_7 Let_def)
qed

lemma spec_fontSize_7: "spec_fontSize 7 = 12"
proof -
  have "round (spec_diameter 7 * 0.35) = 12"
    unfolding round_def spec_diameter_7
    using sqrt_7_lower sqrt_7_upper by (simp add: floor_eq_iff field_simps)
  then show ?thesis
    by (simp add: spec_fontSize_def)
qed

lemma spec_diameter_7_below_36: "spec_diameter 7 < 36"
  unfolding spec_diameter_7 using sqrt_7_upper by simp

text \<open>
  C3 (as stated, refuted): for the count 7 the builder's diameter is the integer 36, its
  inner diameter is 29 and its font size 13, while the specification's descriptor has
  the diameter \<open>32 + sqrt 5 / sqrt 98 * 16\<close> (about 35.61), the inner diameter 28 and
  the font size 12.
\<close>

theorem makeClusterIcon_not_spec_descriptor:
  "real_of_int (h_width (makeClusterIcon 7)) \<noteq> spec_diameter 7
   \<and> h_innerWidth (makeClusterIcon 7) \<noteq> spec_inner 7
   \<and> h_fontSize (makeClusterIcon 7) \<noteq> spec_fontSize 7"
  using spec_diameter_7_below_36
  by (simp add: makeClusterIcon_7_width makeClusterIcon_7_inner spec_inner_7
      makeClusterIcon_7_fontSize spec_fontSize_7)

text \<open>
  C3 (amended): for every integer count in [2,100] the builder rounds the
  specification's diameter to the nearest integer pixel width, which lies in [32,48]
  and is both the icon's width and its height; the inner diameter is that width times
  0.8, rounded, and the font size is that width times 0.35, rounded and clamped to
  [11,14].
\<close>

theorem makeClusterIcon_descriptor:
  assumes "2 \<le> count" and "count \<le> 100"
  shows "h_width (makeClusterIcon count) = round (spec_diameter count)
       \<and> 32 \<le> h_width (makeClusterIcon count) \<and> h_width (makeClusterIcon count) \<le> 48
       \<and> h_height (makeClusterIcon count) = h_width (makeClusterIcon count)
       \<and> iconSize (makeClusterIcon count)
           = (h_width (makeClusterIcon count), h_width (makeClusterIcon count))
       \<and> h_innerWidth (makeClusterIcon count)
           = round (real_of_int (h_width (makeClusterIcon count)) * 0.8)
       \<and> h_fontSize (makeClusterIcon count)
           = max 11 (min 14 (round (real_of_int (h_width (makeClusterIcon count)) * 0.35)))
       \<and> h_count (makeClusterIcon count) = count"
proof -
  have w: "h_width (makeClusterIcon count) = round (spec_diameter count)"
    using makeClusterIcon_width_round [OF assms(1)] by (simp add: Math_round_def round_def)
  have rest: "h_height (makeClusterIcon count) = h_width (makeClusterIcon count)"
    "iconSize (makeClusterIcon count)
       = (h_width (makeClusterIcon count), h_width (makeClusterIcon count))"
    "h_innerWidth (makeClusterIcon count)
       = round (real_of_int (h_width (makeClusterIcon count)) * 0.8)"
    "h_fontSize (makeClusterIcon count)
       = max 11 (min 14 (round (real_of_int (h_width (makeClusterIcon count)) * 0.35)))"
    "h_count (makeClusterIcon count) = count"
    by (simp_all add: makeClusterIcon_def Let_def Math_round_def round_def)
  show ?thesis
    using w rest makeClusterIcon_width_bounds [OF assms(1)] by simp
qed

theorem makeClusterIcon_descriptor_witness:
  "(2::int) \<le> 7 \<and> (7::int) \<le> 100
   \<and> h_width (makeClusterIcon 7) = 36 \<and> h_height (makeClusterIcon 7) = 36
   \<and> h_innerWidth (makeClusterIcon 7) = 29 \<and> h_count (makeClusterIcon 7) = 7"
  using makeClusterIcon_descriptor [of 7] makeClusterIcon_7_width makeClusterIcon_7_inner
  by simp

text \<open>
  C4: for integer counts \<open>c1 \<le> c2\<close> in [2,100] the diameter for \<open>c1\<close> is at most the
  diameter for \<open>c2\<close>, and every diameter lies in [32,48]. This holds for the unrounded
  \<open>size\<close> of the builder and for the rounded \<open>width\<close> it puts into the icon.
\<close>

theorem cluster_diameter_monotone_bounded:
  assumes "2 \<le> c1" and "c1 \<le> c2" and "c2 \<le> 100"
  shows "cluster_size c1 \<le> cluster_size c2
       \<and> 32 \<le> cluster_size c1 \<and> cluster_size c1 \<le> 48
       \<and> 32 \<le> cluster_size c2 \<and> cluster_size c2 \<le> 48
       \<and> h_width (makeClusterIcon c1) \<le> h_width (makeClusterIcon c2)
       \<and> 32 \<le> h_width (makeClusterIcon c1) \<and> h_width (makeClusterIcon c1) \<le> 48
       \<and> 32 \<le> h_width (makeClusterIcon c2) \<and> h_width (makeClusterIcon c2) \<le> 48"
proof -
  have c2: "2 \<le> c2" using assms by simp
  have mono: "spec_diameter c1 \<le> spec_diameter c2"
    by (rule spec_diameter_mono [OF assms(2)])
  have "h_width (makeClusterIcon c1) \<le> h_width (makeClusterIcon c2)"
    unfolding makeClusterIcon_width_round [OF assms(1)] makeClusterIcon_width_round [OF c2]
    by (rule Math_round_mono [OF mono])
  then show ?thesis
    using mono spec_diameter_lower [OF assms(1)] spec_diameter_lower [OF c2]
      spec_diameter_upper [of c1] spec_diameter_upper [of c2]
      makeClusterIcon_width_bounds [OF assms(1)] makeClusterIcon_width_bounds [OF c2]
    by (simp add: cluster_size_eq)
qed

theorem cluster_diameter_monotone_bounded_witness:
  "(2::int) \<le> 2 \<and> (2::int) \<le> 7 \<and> (7::int) \<le> 100
   \<and> cluster_size 2 \<le> cluster_size 7 \<and> cluster_size 2 = 32
   \<and> h_width (makeClusterIcon 2) \<le> 36 \<and> h_width (makeClusterIcon 7) \<le> 48"
proof -
  have "cluster_size 2 = 32"
    by (simp add: cluster_size_def)
  then show ?thesis
    using cluster_diameter_monotone_bounded [of 2 7] makeClusterIcon_7_width by simp
qed

subsection \<open>Asset loader\<close>















subsection \<open>Library load effect\<close>



text \<open>
  The retry attaches nothing: the script element of the first attempt is still in the
  document, so the second call finds it and resolves at once.
\<close>

lemma load_retry_attaches_nothing:
  assumes "leaflet_js \<in> set (scripts doc) \<or> leaflet_event env = Onload"
    and "cluster_js \<in> set (scripts doc) \<or> cluster_event env = Onload"
    and "L_after_delay env = L_without_plugin"
  shows "scripts (fst (load ms env doc))
           = scripts (fst (loadScript cluster_js (cluster_event env)
                (fst (loadScript leaflet_js (leaflet_event env) doc))))"
  using assms
  by (cases "leaflet_event env"; cases "cluster_event env")
     (auto simp add: load_def loadScript_def loadCss_def Let_def split: prod.splits)



subsection \<open>Map mount\<close>

lemma mountMap_markers_foldl:
  "foldl (\<lambda>layer m.
        if falsy (lat m) \<or> falsy (lon m) then layer
        else layer @ [\<lparr> latlng = (lat m, lon m), markerData = m \<rparr>]) acc ms
   = acc @ map (\<lambda>m. \<lparr> latlng = (lat m, lon m), markerData = m \<rparr>) (filter renderable ms)"
  by (induction ms arbitrary: acc) (simp_all add: renderable_def)

lemma mountMap_markers_eq:
  "mountMap_markers ms
     = map (\<lambda>m. \<lparr> latlng = (lat m, lon m), markerData = m \<rparr>) (filter renderable ms)"
  by (simp add: mountMap_markers_def mountMap_markers_foldl)






text \<open>
  C5 (the code at the failing input): the loop of \<open>mountMap\<close> tests \<open>!m.lat || !m.lon\<close>,
  which is true for the number 0 as well as for a missing field, so the loaded point
  with \<open>lat = 0\<close>, \<open>lon = 0\<close> and \<open>url = "/r/test/1"\<close> gets no marker and cannot
  be clicked; among other points it is the only one skipped.
\<close>

theorem zero_point_not_rendered:
  "lat zero_point = Some 0 \<and> lon zero_point = Some 0 \<and> url zero_point = ''/r/test/1''
   \<and> mountMap_markers [zero_point] = []
   \<and> mountMap_markers example_points
       = [\<lparr> latlng = (Some 10, Some 20), markerData = example_point 10 \<rparr>,
          \<lparr> latlng = (Some 20, Some 40), markerData = example_point 20 \<rparr>]"
  by (simp add: mountMap_markers_def example_points_def example_point_def zero_point_def
      falsy_def)

subsection \<open>Selection and pagination\<close>

text \<open>
  After an event at most two renders follow. The lemmas \<open>step_...\<close> give the settled
  component after each kind of event.
\<close>

lemma settle_done: "settled k \<Longrightarrow> settle k = k"
  by (subst settle.simps) simp

lemma settle_again: "\<not> settled k \<Longrightarrow> settle k = settle (commit k)"
  by (subst settle.simps) simp

lemma settle_unfold:
  "settle k = (if settled k then k else if settled (commit k) then commit k
               else commit (commit k))"
proof (cases "settled k")
  case True
  then show ?thesis by (simp add: settle_done)
next
  case False
  show ?thesis
  proof (cases "settled (commit k)")
    case True
    with \<open>\<not> settled k\<close> show ?thesis by (simp add: settle_again settle_done)
  next
    case False
    with \<open>\<not> settled k\<close> show ?thesis
      by (simp add: settle_again settle_done commit_commit_settled)
  qed
qed

lemma settle_settled: "settled (settle k)"
  using commit_commit_settled [of k] by (simp add: settle_unfold)

lemma mounted_eq:
  "mounted =
     \<lparr> cur = \<lparr> selectedCluster = None, visibleMarkers = [], page = 1, hasMore = False,
               showPanel = False, loadingMore = False \<rparr>,
       rendered = Some \<lparr> selectedCluster = None, visibleMarkers = [], page = 1,
                         hasMore = False, showPanel = False, loadingMore = False \<rparr>,
       timeouts = [], listener = None, fresh = 0 \<rparr>"
  by (simp add: mounted_def initial_def settle_unfold settled_def commit_def Let_def changed_def
      effect_reset_def effect_page_def effect_scroll_def sel_ref_def)

lemma open_from_mounted:
  "step (Select c) mounted =
     (let v = \<lparr> selectedCluster = Some (0, c),
                visibleMarkers = take MARKERS_PER_PAGE (markers c), page = 1,
                hasMore = (length (markers c) > MARKERS_PER_PAGE),
                showPanel = True, loadingMore = False \<rparr>
      in \<lparr> cur = v, rendered = Some v, timeouts = [],
           listener = (if length (markers c) > MARKERS_PER_PAGE then Some (False, True) else None),
           fresh = 1 \<rparr>)"
  by (simp add: step_def mounted_eq settle_unfold settled_def commit_def Let_def changed_def
      effect_reset_def effect_page_def effect_scroll_def sel_ref_def MARKERS_PER_PAGE_def)

lemma consistent_mounted: "consistent mounted"
  by (simp add: consistent_def mounted_eq settled_def reveals_in_flight_def)

lemma step_Timeout_none:
  assumes "settled k" and "timeouts k = []"
  shows "step Timeout k = k"
  using assms by (simp add: step_def settle_done)

lemma step_Timeout_Reveal:
  assumes "settled k" and "timeouts k = Reveal p c # ts" and "loadingMore (cur k)"
  shows "step Timeout k =
           k\<lparr> cur := callback (Reveal p c) (cur k),
              rendered := Some (callback (Reveal p c) (cur k)),
              timeouts := ts,
              listener := (if selectedCluster (cur k) = None then None
                           else Some (False, p * MARKERS_PER_PAGE < length (markers c))) \<rparr>"
proof -
  obtain v rd l f where k: "k = \<lparr> cur = v, rendered = rd, timeouts = Reveal p c # ts, listener = l, fresh = f \<rparr>"
    using assms(2) by (cases k) auto
  obtain s vm pg hm sp where v: "v = \<lparr> selectedCluster = s, visibleMarkers = vm, page = pg,
      hasMore = hm, showPanel = sp, loadingMore = True \<rparr>"
    using assms(3) k by (cases v) auto
  have rd: "rd = Some v" using assms(1) k by (simp add: settled_def)
  show ?thesis
    unfolding k v rd step_def
    by (simp add: settle_unfold settled_def commit_def Let_def changed_def
        effect_page_def effect_scroll_def sel_ref_def)
qed

lemma step_Timeout_Close:
  assumes "settled k" and "timeouts k = Close # ts"
    and "selectedCluster (cur k) = None \<longrightarrow> listener k = None"
  shows "step Timeout k =
           k\<lparr> cur := (cur k)\<lparr> selectedCluster := None, visibleMarkers := [], page := 1,
                              hasMore := (if selectedCluster (cur k) = None
                                          then hasMore (cur k) else False) \<rparr>,
              rendered := Some ((cur k)\<lparr> selectedCluster := None, visibleMarkers := [], page := 1,
                              hasMore := (if selectedCluster (cur k) = None
                                          then hasMore (cur k) else False) \<rparr>),
              timeouts := ts,
              listener := None \<rparr>"
proof -
  obtain v rd l f where k: "k = \<lparr> cur = v, rendered = rd, timeouts = Close # ts, listener = l, fresh = f \<rparr>"
    using assms(2) by (cases k) auto
  obtain s vm pg hm sp lm where v: "v = \<lparr> selectedCluster = s, visibleMarkers = vm, page = pg,
      hasMore = hm, showPanel = sp, loadingMore = lm \<rparr>"
    by (cases v) auto
  have rd: "rd = Some v" using assms(1) k by (simp add: settled_def)
  show ?thesis
  proof (cases s)
    case None
    then have "l = None" using assms(3) k v by simp
    with None show ?thesis
      unfolding k v rd step_def
      by (simp add: settle_unfold settled_def commit_def Let_def changed_def
          effect_page_def effect_scroll_def effect_reset_def sel_ref_def)
  next
    case (Some rc)
    then show ?thesis
      unfolding k v rd step_def
      by (cases hm)
         (simp_all add: settle_unfold settled_def commit_def Let_def changed_def
          effect_page_def effect_scroll_def effect_reset_def sel_ref_def)
  qed
qed

lemma step_ClosePanel:
  assumes "settled k"
  shows "step ClosePanel k =
           (if selectedCluster (cur k) = None then k
            else k\<lparr> cur := (cur k)\<lparr> showPanel := False \<rparr>,
                    rendered := Some ((cur k)\<lparr> showPanel := False \<rparr>),
                    timeouts := timeouts k @ [Close] \<rparr>)"
proof -
  obtain v rd ts l f where k: "k = \<lparr> cur = v, rendered = rd, timeouts = ts, listener = l, fresh = f \<rparr>"
    by (cases k) auto
  obtain s vm pg hm sp lm where v: "v = \<lparr> selectedCluster = s, visibleMarkers = vm, page = pg,
      hasMore = hm, showPanel = sp, loadingMore = lm \<rparr>"
    by (cases v) auto
  have rd: "rd = Some v" using assms(1) k by (simp add: settled_def)
  show ?thesis
    unfolding k v rd step_def
    by (cases s; cases sp)
       (simp_all add: closePanel_def settle_unfold settled_def commit_def Let_def changed_def
        effect_page_def effect_scroll_def sel_ref_def)
qed

lemma step_Select:
  assumes "settled k" and "loadingMore (cur k) = False"
    and "sel_ref (cur k) \<noteq> Some (fresh k)"
    and "selectedCluster (cur k) = None \<longrightarrow> listener k = None"
  shows "step (Select c) k =
           (let lm = (page (cur k) > 1);
                hm = (length (markers c) > MARKERS_PER_PAGE);
                v = \<lparr> selectedCluster = Some (fresh k, c),
                      visibleMarkers = take MARKERS_PER_PAGE (markers c), page = 1,
                      hasMore = hm, showPanel = True, loadingMore = lm \<rparr>
            in \<lparr> cur = v, rendered = Some v,
                 timeouts = timeouts k @ (if lm then [Reveal (page (cur k)) c] else []),
                 listener = (if hm \<noteq> hasMore (cur k) \<or> lm then Some (lm, hm) else listener k),
                 fresh = Suc (fresh k) \<rparr>)"
proof -
  obtain v rd ts l f where k: "k = \<lparr> cur = v, rendered = rd, timeouts = ts, listener = l, fresh = f \<rparr>"
    by (cases k) auto
  obtain s vm pg hm sp where v: "v = \<lparr> selectedCluster = s, visibleMarkers = vm, page = pg,
      hasMore = hm, showPanel = sp, loadingMore = False \<rparr>"
    using assms(2) k by (cases v) auto
  have rd: "rd = Some v" using assms(1) k by (simp add: settled_def)
  have ref: "map_option fst s \<noteq> Some f"
    using assms(3) k v by (simp add: sel_ref_def)
  have l: "s = None \<longrightarrow> l = None"
    using assms(4) k v by simp
  show ?thesis
    using ref l unfolding k v rd step_def
    by (cases "1 < pg"; cases "MARKERS_PER_PAGE < length (markers c)"; cases hm)
       (simp_all add: settle_unfold settled_def commit_def Let_def changed_def
        effect_page_def effect_scroll_def effect_reset_def sel_ref_def)
qed

lemma consistent_Timeout:
  assumes "consistent k"
  shows "consistent (step Timeout k)"
proof (cases "timeouts k")
  case Nil
  then show ?thesis
    using assms by (simp add: step_Timeout_none consistent_def)
next
  case (Cons t ts)
  have s: "settled k" using assms by (simp add: consistent_def)
  show ?thesis
  proof (cases t)
    case (Reveal p c)
    with Cons have ts: "timeouts k = Reveal p c # ts" by simp
    have lm: "loadingMore (cur k)" "filter is_Reveal ts = []"
      using assms ts by (auto simp: consistent_def reveals_in_flight_def split: if_splits)
    show ?thesis
      unfolding step_Timeout_Reveal [OF s ts lm(1)]
      using assms lm(2)
      by (auto simp: consistent_def settled_def reveals_in_flight_def Let_def
          split: option.splits)
  next
    case Close
    with Cons have ts: "timeouts k = Close # ts" by simp
    have l: "selectedCluster (cur k) = None \<longrightarrow> listener k = None"
      using assms by (auto simp: consistent_def)
    show ?thesis
      unfolding step_Timeout_Close [OF s ts l]
      using assms ts
      by (simp add: consistent_def settled_def reveals_in_flight_def)
  qed
qed

lemma consistent_ClosePanel:
  assumes "consistent k"
  shows "consistent (step ClosePanel k)"
proof -
  have s: "settled k" using assms by (simp add: consistent_def)
  show ?thesis
    unfolding step_ClosePanel [OF s]
    using assms
    by (auto simp: consistent_def settled_def reveals_in_flight_def split: option.splits)
qed

lemma consistent_Select:
  assumes "consistent k" and "loadingMore (cur k) = False"
  shows "consistent (step (Select c) k)"
proof -
  have s: "settled k" using assms by (simp add: consistent_def)
  have r: "sel_ref (cur k) \<noteq> Some (fresh k)"
    using assms by (auto simp: consistent_def sel_ref_def split: option.splits)
  have l: "selectedCluster (cur k) = None \<longrightarrow> listener k = None"
    using assms by (auto simp: consistent_def)
  have n: "filter is_Reveal (timeouts k) = []"
    using assms by (simp add: consistent_def reveals_in_flight_def)
  show ?thesis
    unfolding step_Select [OF s assms(2) r l]
    using assms n
    by (auto simp: consistent_def settled_def reveals_in_flight_def Let_def
        split: option.splits)
qed

lemma step_Scroll_trigger:
  assumes "settled k" and "selectedCluster (cur k) = Some (r, c)"
    and "listener k = Some (False, True)" and "scrollHeight - scrollTop - clientHeight < 100"
    and "\<not> loadingMore (cur k)" and "1 \<le> page (cur k)"
  shows "step (Scroll scrollTop scrollHeight clientHeight) k =
           k\<lparr> cur := (cur k)\<lparr> page := page (cur k) + 1, loadingMore := True \<rparr>,
              rendered := Some ((cur k)\<lparr> page := page (cur k) + 1, loadingMore := True \<rparr>),
              timeouts := timeouts k @ [Reveal (page (cur k) + 1) c],
              listener := Some (True, hasMore (cur k)) \<rparr>"
proof -
  obtain v rd ts f where k: "k = \<lparr> cur = v, rendered = rd, timeouts = ts, listener = Some (False, True), fresh = f \<rparr>"
    using assms(3) by (cases k) auto
  obtain vm pg hm sp lm where v: "v = \<lparr> selectedCluster = Some (r, c), visibleMarkers = vm, page = pg,
      hasMore = hm, showPanel = sp, loadingMore = lm \<rparr>"
    using assms(2) k by (cases v) auto
  have rd: "rd = Some v" using assms(1) k by (simp add: settled_def)
  show ?thesis
    using assms(4,5,6) unfolding k v rd step_def
    by (simp add: handleScroll_def settle_unfold settled_def commit_def Let_def changed_def
        effect_page_def effect_scroll_def sel_ref_def)
qed

lemma step_Scroll_blocked:
  assumes "settled k"
    and "listener k = None \<or> listener k = Some (lm, hm) \<and> (lm \<or> \<not> hm)
         \<or> \<not> scrollHeight - scrollTop - clientHeight < 100"
  shows "step (Scroll scrollTop scrollHeight clientHeight) k = k"
  using assms
  by (auto simp: step_def handleScroll_def settle_done split: option.splits)

lemma consistent_Scroll:
  assumes "consistent k"
  shows "consistent (step (Scroll scrollTop scrollHeight clientHeight) k)"
proof (cases "listener k = Some (False, True) \<and> scrollHeight - scrollTop - clientHeight < 100")
  case True
  then obtain r c where s: "selectedCluster (cur k) = Some (r, c)"
    using assms by (auto simp: consistent_def split: option.splits)
  have g: "settled k" "\<not> loadingMore (cur k)" "1 \<le> page (cur k)"
    "filter is_Reveal (timeouts k) = []"
    using assms True s by (auto simp: consistent_def reveals_in_flight_def split: if_splits)
  have "step (Scroll scrollTop scrollHeight clientHeight) k =
           k\<lparr> cur := (cur k)\<lparr> page := page (cur k) + 1, loadingMore := True \<rparr>,
              rendered := Some ((cur k)\<lparr> page := page (cur k) + 1, loadingMore := True \<rparr>),
              timeouts := timeouts k @ [Reveal (page (cur k) + 1) c],
              listener := Some (True, hasMore (cur k)) \<rparr>"
    using step_Scroll_trigger [OF g(1) s _ _ g(2) g(3)] True by simp
  then show ?thesis
    using assms s g(4) by (simp add: consistent_def settled_def reveals_in_flight_def)
next
  case False
  have "settled k" using assms by (simp add: consistent_def)
  moreover have "listener k = None
      \<or> listener k = Some (loadingMore (cur k), hasMore (cur k)) \<and> (loadingMore (cur k) \<or> \<not> hasMore (cur k))
      \<or> \<not> scrollHeight - scrollTop - clientHeight < 100"
    using assms False by (auto simp: consistent_def split: option.splits)
  ultimately have "step (Scroll scrollTop scrollHeight clientHeight) k = k"
    by (rule step_Scroll_blocked)
  then show ?thesis using assms by simp
qed

lemma run_Nil: "run [] k = k"
  by (simp add: run_def)

lemma run_Cons: "run (e # es) k = run es (step e k)"
  by (simp add: run_def)

lemma consistent_step:
  assumes "consistent k" and "calm [e] k"
  shows "consistent (step e k)"
  using assms
  by (cases e)
     (simp_all add: consistent_Select consistent_ClosePanel consistent_Scroll consistent_Timeout)

lemma consistent_run:
  assumes "consistent k" and "calm es k"
  shows "consistent (run es k)"
  using assms
proof (induction es arbitrary: k)
  case Nil
  then show ?case by (simp add: run_Nil)
next
  case (Cons e es)
  have "consistent (step e k)"
    using Cons.prems by (intro consistent_step) simp_all
  moreover have "calm es (step e k)"
    using Cons.prems by simp
  ultimately show ?case
    by (simp add: run_Cons Cons.IH)
qed

lemma consistent_Scroll_effect:
  assumes "consistent k"
  shows "(loadingMore (cur k) \<longrightarrow> step (Scroll scrollTop scrollHeight clientHeight) k = k)
       \<and> (page (cur (step (Scroll scrollTop scrollHeight clientHeight) k)) = page (cur k)
          \<or> page (cur (step (Scroll scrollTop scrollHeight clientHeight) k)) = page (cur k) + 1
            \<and> reveals_in_flight (step (Scroll scrollTop scrollHeight clientHeight) k) = 1)"
proof (cases "listener k = Some (False, True) \<and> scrollHeight - scrollTop - clientHeight < 100")
  case True
  then obtain r c where s: "selectedCluster (cur k) = Some (r, c)"
    using assms by (auto simp: consistent_def split: option.splits)
  have g: "settled k" "\<not> loadingMore (cur k)" "1 \<le> page (cur k)" "reveals_in_flight k = 0"
    using assms True s by (auto simp: consistent_def split: if_splits)
  have "step (Scroll scrollTop scrollHeight clientHeight) k =
           k\<lparr> cur := (cur k)\<lparr> page := page (cur k) + 1, loadingMore := True \<rparr>,
              rendered := Some ((cur k)\<lparr> page := page (cur k) + 1, loadingMore := True \<rparr>),
              timeouts := timeouts k @ [Reveal (page (cur k) + 1) c],
              listener := Some (True, hasMore (cur k)) \<rparr>"
    using step_Scroll_trigger [OF g(1) s _ _ g(2) g(3)] True by simp
  then show ?thesis
    using g by (simp add: reveals_in_flight_def)
next
  case False
  have "settled k" using assms by (simp add: consistent_def)
  moreover have "listener k = None
      \<or> listener k = Some (loadingMore (cur k), hasMore (cur k)) \<and> (loadingMore (cur k) \<or> \<not> hasMore (cur k))
      \<or> \<not> scrollHeight - scrollTop - clientHeight < 100"
    using assms False by (auto simp: consistent_def split: option.splits)
  ultimately have "step (Scroll scrollTop scrollHeight clientHeight) k = k"
    by (rule step_Scroll_blocked)
  then show ?thesis by simp
qed

text \<open>
  In every run of the mounted component in which no new selection is made while a
  reveal is in flight (in particular in every sequence of scroll events and timeouts
  after a first selection), at most one reveal is in flight at a time, and
  \<open>loadingMore\<close> is set exactly while one is. While it is set, a scroll event changes
  nothing: it starts no second page advance. A scroll event either leaves the page as it
  is or advances it by exactly one and then exactly one reveal is in flight.
\<close>

lemma calm_run_one_reveal:
  assumes "calm es mounted"
  shows "reveals_in_flight (run es mounted) \<le> 1
       \<and> loadingMore (cur (run es mounted)) = (reveals_in_flight (run es mounted) = 1)
       \<and> (loadingMore (cur (run es mounted)) \<longrightarrow>
            step (Scroll scrollTop scrollHeight clientHeight) (run es mounted) = run es mounted)
       \<and> (page (cur (step (Scroll scrollTop scrollHeight clientHeight) (run es mounted)))
             = page (cur (run es mounted))
          \<or> page (cur (step (Scroll scrollTop scrollHeight clientHeight) (run es mounted)))
               = page (cur (run es mounted)) + 1
            \<and> reveals_in_flight (step (Scroll scrollTop scrollHeight clientHeight) (run es mounted)) = 1)"
proof -
  have c: "consistent (run es mounted)"
    using consistent_mounted assms by (rule consistent_run)
  then have "reveals_in_flight (run es mounted) \<le> 1"
    "loadingMore (cur (run es mounted)) = (reveals_in_flight (run es mounted) = 1)"
    by (auto simp: consistent_def split: if_splits)
  then show ?thesis
    using consistent_Scroll_effect [OF c] by blast
qed

lemma calm_run_one_reveal_example:
  "calm example_scrolls mounted
   \<and> reveals_in_flight (run example_scrolls mounted) \<le> 1
   \<and> loadingMore (cur (run example_scrolls mounted))
   \<and> page (cur (run example_scrolls mounted)) = 2
   \<and> step near_bottom (run example_scrolls mounted) = run example_scrolls mounted"
proof -
  have c: "calm example_scrolls mounted"
    by code_simp
  have l: "loadingMore (cur (run example_scrolls mounted))"
    by code_simp
  have p: "page (cur (run example_scrolls mounted)) = 2"
    by code_simp
  show ?thesis
    using calm_run_one_reveal [OF c, of 5700 6100 400] c l p
    by (simp add: near_bottom_def)
qed

text \<open>
  The same two events in the states that a calm run never reaches: a new selection
  while \<open>loadingMore\<close> is set, and a reveal that completes while it is not set.
\<close>

lemma step_Select_loading:
  assumes "settled k" and "loadingMore (cur k)"
    and "sel_ref (cur k) \<noteq> Some (fresh k)"
    and "selectedCluster (cur k) = None \<longrightarrow> listener k = None"
  shows "step (Select c) k =
           (let hm = (length (markers c) > MARKERS_PER_PAGE);
                v = \<lparr> selectedCluster = Some (fresh k, c),
                      visibleMarkers = take MARKERS_PER_PAGE (markers c), page = 1,
                      hasMore = hm, showPanel = True, loadingMore = True \<rparr>
            in \<lparr> cur = v, rendered = Some v,
                 timeouts = timeouts k @ (if page (cur k) > 1 then [Reveal (page (cur k)) c] else []),
                 listener = (if hm \<noteq> hasMore (cur k) then Some (True, hm) else listener k),
                 fresh = Suc (fresh k) \<rparr>)"
proof -
  obtain v rd ts l f where k: "k = \<lparr> cur = v, rendered = rd, timeouts = ts, listener = l, fresh = f \<rparr>"
    by (cases k) auto
  obtain s vm pg hm sp where v: "v = \<lparr> selectedCluster = s, visibleMarkers = vm, page = pg,
      hasMore = hm, showPanel = sp, loadingMore = True \<rparr>"
    using assms(2) k by (cases v) auto
  have rd: "rd = Some v" using assms(1) k by (simp add: settled_def)
  have ref: "map_option fst s \<noteq> Some f"
    using assms(3) k v by (simp add: sel_ref_def)
  have l: "s = None \<longrightarrow> l = None"
    using assms(4) k v by simp
  show ?thesis
    using ref l unfolding k v rd step_def
    by (cases "1 < pg"; cases "MARKERS_PER_PAGE < length (markers c)"; cases hm)
       (simp_all add: settle_unfold settled_def commit_def Let_def changed_def
        effect_page_def effect_scroll_def effect_reset_def sel_ref_def)
qed

lemma step_Timeout_Reveal_idle:
  assumes "settled k" and "timeouts k = Reveal p c # ts" and "\<not> loadingMore (cur k)"
    and "selectedCluster (cur k) = None \<longrightarrow> listener k = None"
  shows "step Timeout k =
           k\<lparr> cur := callback (Reveal p c) (cur k),
              rendered := Some (callback (Reveal p c) (cur k)),
              timeouts := ts,
              listener := (if hasMore (cur k) = (p * MARKERS_PER_PAGE < length (markers c))
                             \<or> selectedCluster (cur k) = None
                           then listener k
                           else Some (False, p * MARKERS_PER_PAGE < length (markers c))) \<rparr>"
proof -
  obtain v rd l f where k: "k = \<lparr> cur = v, rendered = rd, timeouts = Reveal p c # ts, listener = l, fresh = f \<rparr>"
    using assms(2) by (cases k) auto
  obtain s vm pg hm sp where v: "v = \<lparr> selectedCluster = s, visibleMarkers = vm, page = pg,
      hasMore = hm, showPanel = sp, loadingMore = False \<rparr>"
    using assms(3) k by (cases v) auto
  have rd: "rd = Some v" using assms(1) k by (simp add: settled_def)
  have l: "s = None \<longrightarrow> l = None"
    using assms(4) k v by simp
  show ?thesis
    using l unfolding k v rd step_def
    by (cases hm; cases "p * MARKERS_PER_PAGE < length (markers c)"; cases s)
       (simp_all add: settle_unfold settled_def commit_def Let_def changed_def
        effect_page_def effect_scroll_def sel_ref_def)
qed

lemma run_append: "run (es @ es') k = run es' (run es k)"
  by (simp add: run_def)

text \<open>
  A selection with more than one page of members, opened on the mounted component and
  scrolled to the bottom: the page is 2 and the reveal of the second page is pending.
\<close>

lemma run_open_scroll:
  assumes "MARKERS_PER_PAGE < length (markers c)"
  shows "run [Select c, near_bottom] mounted = paging c"
proof -
  let ?k1 = "step (Select c) mounted"
  have k1: "?k1 =
     \<lparr> cur = \<lparr> selectedCluster = Some (0, c),
               visibleMarkers = take MARKERS_PER_PAGE (markers c), page = 1,
               hasMore = True, showPanel = True, loadingMore = False \<rparr>,
       rendered = Some \<lparr> selectedCluster = Some (0, c),
               visibleMarkers = take MARKERS_PER_PAGE (markers c), page = 1,
               hasMore = True, showPanel = True, loadingMore = False \<rparr>,
       timeouts = [], listener = Some (False, True), fresh = 1 \<rparr>"
    using assms by (simp add: open_from_mounted Let_def)
  have "step (Scroll 5700 6100 400) ?k1 = paging c"
    by (subst step_Scroll_trigger [of ?k1 0 c 6100 5700 400])
       (simp_all add: k1 settled_def paging_def)
  then show ?thesis
    by (simp add: run_Cons run_Nil near_bottom_def)
qed

text \<open>
  The reveal of the second page completes: the first two pages of \<open>c\<close> are visible.
\<close>

lemma step_Timeout_paging: "step Timeout (paging c) = paged c"
  by (subst step_Timeout_Reveal [of "paging c" 2 c "[]"])
     (simp_all add: paging_def paged_def settled_def Let_def)

text \<open>
  A new selection \<open>c'\<close> replaces \<open>c\<close> on page 2: the reset effect shows the first page
  of \<open>c'\<close> and sets the page to 1, and the page effect of the same render, which still
  sees the page 2, schedules a reveal of two pages of \<open>c'\<close>. When that reveal completes,
  two pages of \<open>c'\<close> are visible on page 1.
\<close>

lemma run_replace_after_paging:
  assumes "MARKERS_PER_PAGE < length (markers c)"
  shows "run [Select c, near_bottom, Timeout, Select c', Timeout] mounted =
     \<lparr> cur = \<lparr> selectedCluster = Some (1, c'),
               visibleMarkers = take (2 * MARKERS_PER_PAGE) (markers c'), page = 1,
               hasMore = (2 * MARKERS_PER_PAGE < length (markers c')), showPanel = True,
               loadingMore = False \<rparr>,
       rendered = Some \<lparr> selectedCluster = Some (1, c'),
               visibleMarkers = take (2 * MARKERS_PER_PAGE) (markers c'), page = 1,
               hasMore = (2 * MARKERS_PER_PAGE < length (markers c')), showPanel = True,
               loadingMore = False \<rparr>,
       timeouts = [],
       listener = Some (False, 2 * MARKERS_PER_PAGE < length (markers c')), fresh = 2 \<rparr>"
proof -
  let ?k4 = "step (Select c') (paged c)"
  have k4: "?k4 =
     \<lparr> cur = \<lparr> selectedCluster = Some (1, c'),
               visibleMarkers = take MARKERS_PER_PAGE (markers c'), page = 1,
               hasMore = (MARKERS_PER_PAGE < length (markers c')), showPanel = True,
               loadingMore = True \<rparr>,
       rendered = Some \<lparr> selectedCluster = Some (1, c'),
               visibleMarkers = take MARKERS_PER_PAGE (markers c'), page = 1,
               hasMore = (MARKERS_PER_PAGE < length (markers c')), showPanel = True,
               loadingMore = True \<rparr>,
       timeouts = [Reveal 2 c'],
       listener = Some (True, MARKERS_PER_PAGE < length (markers c')), fresh = 2 \<rparr>"
    by (subst step_Select [of "paged c" c'])
       (simp_all add: paged_def settled_def sel_ref_def Let_def)
  have "step Timeout ?k4 =
     \<lparr> cur = \<lparr> selectedCluster = Some (1, c'),
               visibleMarkers = take (2 * MARKERS_PER_PAGE) (markers c'), page = 1,
               hasMore = (2 * MARKERS_PER_PAGE < length (markers c')), showPanel = True,
               loadingMore = False \<rparr>,
       rendered = Some \<lparr> selectedCluster = Some (1, c'),
               visibleMarkers = take (2 * MARKERS_PER_PAGE) (markers c'), page = 1,
               hasMore = (2 * MARKERS_PER_PAGE < length (markers c')), showPanel = True,
               loadingMore = False \<rparr>,
       timeouts = [],
       listener = Some (False, 2 * MARKERS_PER_PAGE < length (markers c')), fresh = 2 \<rparr>"
    by (subst step_Timeout_Reveal [of ?k4 2 c' "[]"])
       (simp_all add: k4 settled_def Let_def)
  moreover have "run [Select c, near_bottom, Timeout, Select c', Timeout] mounted
      = step Timeout (step (Select c') (step Timeout (run [Select c, near_bottom] mounted)))"
    by (simp add: run_Cons run_Nil)
  ultimately show ?thesis
    by (simp add: run_open_scroll [OF assms] step_Timeout_paging)
qed

text \<open>
  The panel is closed while the reveal of the second page of \<open>c\<close> is pending, and
  \<open>c'\<close> is selected before that reveal completes. The pending callback still holds
  \<open>c\<close>: when it runs, two pages of \<open>c\<close> are visible in the panel of \<open>c'\<close>.
\<close>

lemma run_close_reopen:
  assumes "MARKERS_PER_PAGE < length (markers c)"
  shows "run [Select c, near_bottom, ClosePanel, Select c', Timeout] mounted = leaked c c'"
proof -
  let ?k3 = "step ClosePanel (paging c)"
  have k3: "?k3 =
     \<lparr> cur = \<lparr> selectedCluster = Some (0, c),
               visibleMarkers = take MARKERS_PER_PAGE (markers c), page = 2,
               hasMore = True, showPanel = False, loadingMore = True \<rparr>,
       rendered = Some \<lparr> selectedCluster = Some (0, c),
               visibleMarkers = take MARKERS_PER_PAGE (markers c), page = 2,
               hasMore = True, showPanel = False, loadingMore = True \<rparr>,
       timeouts = [Reveal 2 c, Close], listener = Some (True, True), fresh = 1 \<rparr>"
    by (subst step_ClosePanel) (simp_all add: paging_def settled_def)
  let ?k4 = "step (Select c') ?k3"
  have k4: "?k4 =
     \<lparr> cur = \<lparr> selectedCluster = Some (1, c'),
               visibleMarkers = take MARKERS_PER_PAGE (markers c'), page = 1,
               hasMore = (MARKERS_PER_PAGE < length (markers c')), showPanel = True,
               loadingMore = True \<rparr>,
       rendered = Some \<lparr> selectedCluster = Some (1, c'),
               visibleMarkers = take MARKERS_PER_PAGE (markers c'), page = 1,
               hasMore = (MARKERS_PER_PAGE < length (markers c')), showPanel = True,
               loadingMore = True \<rparr>,
       timeouts = [Reveal 2 c, Close, Reveal 2 c'],
       listener = Some (True, MARKERS_PER_PAGE < length (markers c')), fresh = 2 \<rparr>"
    by (subst step_Select_loading [of ?k3 c'])
       (auto simp add: k3 settled_def sel_ref_def Let_def)
  have "step Timeout ?k4 = leaked c c'"
    by (subst step_Timeout_Reveal [of ?k4 2 c "[Close, Reveal 2 c']"])
       (simp_all add: k4 settled_def Let_def leaked_def)
  moreover have "run [Select c, near_bottom, ClosePanel, Select c', Timeout] mounted
      = step Timeout (step (Select c') (step ClosePanel (run [Select c, near_bottom] mounted)))"
    by (simp add: run_Cons run_Nil)
  ultimately show ?thesis
    by (simp add: run_open_scroll [OF assms])
qed

text \<open>
  Then the close callback runs and discards the selection, and the reveal scheduled for
  \<open>c'\<close> completes after it: members are visible again although nothing is selected.
\<close>

lemma run_close_reopen_closed:
  assumes "MARKERS_PER_PAGE < length (markers c)"
  shows "run [Select c, near_bottom, ClosePanel, Select c', Timeout, Timeout, Timeout] mounted =
     \<lparr> cur = \<lparr> selectedCluster = None,
               visibleMarkers = take (2 * MARKERS_PER_PAGE) (markers c'), page = 1,
               hasMore = (2 * MARKERS_PER_PAGE < length (markers c')), showPanel = True,
               loadingMore = False \<rparr>,
       rendered = Some \<lparr> selectedCluster = None,
               visibleMarkers = take (2 * MARKERS_PER_PAGE) (markers c'), page = 1,
               hasMore = (2 * MARKERS_PER_PAGE < length (markers c')), showPanel = True,
               loadingMore = False \<rparr>,
       timeouts = [], listener = None, fresh = 2 \<rparr>"
proof -
  let ?k6 = "step Timeout (leaked c c')"
  have k6: "?k6 =
     \<lparr> cur = \<lparr> selectedCluster = None, visibleMarkers = [], page = 1,
               hasMore = False, showPanel = True, loadingMore = False \<rparr>,
       rendered = Some \<lparr> selectedCluster = None, visibleMarkers = [], page = 1,
               hasMore = False, showPanel = True, loadingMore = False \<rparr>,
       timeouts = [Reveal 2 c'], listener = None, fresh = 2 \<rparr>"
    by (subst step_Timeout_Close [of "leaked c c'" "[Reveal 2 c']"])
       (simp_all add: leaked_def settled_def)
  have "step Timeout ?k6 =
     \<lparr> cur = \<lparr> selectedCluster = None,
               visibleMarkers = take (2 * MARKERS_PER_PAGE) (markers c'), page = 1,
               hasMore = (2 * MARKERS_PER_PAGE < length (markers c')), showPanel = True,
               loadingMore = False \<rparr>,
       rendered = Some \<lparr> selectedCluster = None,
               visibleMarkers = take (2 * MARKERS_PER_PAGE) (markers c'), page = 1,
               hasMore = (2 * MARKERS_PER_PAGE < length (markers c')), showPanel = True,
               loadingMore = False \<rparr>,
       timeouts = [], listener = None, fresh = 2 \<rparr>"
    by (subst step_Timeout_Reveal_idle [of ?k6 2 c' "[]"])
       (simp_all add: k6 settled_def Let_def)
  moreover have
    "run [Select c, near_bottom, ClosePanel, Select c', Timeout, Timeout, Timeout] mounted
      = step Timeout (step Timeout
          (run [Select c, near_bottom, ClosePanel, Select c', Timeout] mounted))"
    by (simp add: run_Cons run_Nil)
  ultimately show ?thesis
    by (simp add: run_close_reopen [OF assms])
qed

text \<open>
  The selection is replaced while the reveal of the second page of \<open>c\<close> is pending:
  when that reveal completes, two pages of \<open>c\<close> are visible under the selection \<open>c'\<close>.
\<close>

lemma run_replace_while_loading:
  assumes "MARKERS_PER_PAGE < length (markers c)"
  shows "run [Select c, near_bottom, Select c', Timeout] mounted =
     \<lparr> cur = \<lparr> selectedCluster = Some (1, c'),
               visibleMarkers = take (2 * MARKERS_PER_PAGE) (markers c), page = 1,
               hasMore = (2 * MARKERS_PER_PAGE < length (markers c)), showPanel = True,
               loadingMore = False \<rparr>,
       rendered = Some \<lparr> selectedCluster = Some (1, c'),
               visibleMarkers = take (2 * MARKERS_PER_PAGE) (markers c), page = 1,
               hasMore = (2 * MARKERS_PER_PAGE < length (markers c)), showPanel = True,
               loadingMore = False \<rparr>,
       timeouts = [Reveal 2 c'],
       listener = Some (False, 2 * MARKERS_PER_PAGE < length (markers c)), fresh = 2 \<rparr>"
proof -
  let ?k3 = "step (Select c') (paging c)"
  have k3: "?k3 =
     \<lparr> cur = \<lparr> selectedCluster = Some (1, c'),
               visibleMarkers = take MARKERS_PER_PAGE (markers c'), page = 1,
               hasMore = (MARKERS_PER_PAGE < length (markers c')), showPanel = True,
               loadingMore = True \<rparr>,
       rendered = Some \<lparr> selectedCluster = Some (1, c'),
               visibleMarkers = take MARKERS_PER_PAGE (markers c'), page = 1,
               hasMore = (MARKERS_PER_PAGE < length (markers c')), showPanel = True,
               loadingMore = True \<rparr>,
       timeouts = [Reveal 2 c, Reveal 2 c'],
       listener = Some (True, MARKERS_PER_PAGE < length (markers c')), fresh = 2 \<rparr>"
    by (subst step_Select_loading [of "paging c" c'])
       (auto simp add: paging_def settled_def sel_ref_def Let_def)
  have "step Timeout ?k3 =
     \<lparr> cur = \<lparr> selectedCluster = Some (1, c'),
               visibleMarkers = take (2 * MARKERS_PER_PAGE) (markers c), page = 1,
               hasMore = (2 * MARKERS_PER_PAGE < length (markers c)), showPanel = True,
               loadingMore = False \<rparr>,
       rendered = Some \<lparr> selectedCluster = Some (1, c'),
               visibleMarkers = take (2 * MARKERS_PER_PAGE) (markers c), page = 1,
               hasMore = (2 * MARKERS_PER_PAGE < length (markers c)), showPanel = True,
               loadingMore = False \<rparr>,
       timeouts = [Reveal 2 c'],
       listener = Some (False, 2 * MARKERS_PER_PAGE < length (markers c)), fresh = 2 \<rparr>"
    by (subst step_Timeout_Reveal [of ?k3 2 c "[Reveal 2 c']"])
       (simp_all add: k3 settled_def Let_def)
  moreover have "run [Select c, near_bottom, Select c', Timeout] mounted
      = step Timeout (step (Select c') (run [Select c, near_bottom] mounted))"
    by (simp add: run_Cons run_Nil)
  ultimately show ?thesis
    by (simp add: run_open_scroll [OF assms])
qed

subsection \<open>The example Selections\<close>

lemma clusterclick_foldl_contained:
  "fst (foldl (\<lambda>(contained, avgLat, avgLng) marker.
                     (contained @ [markerData marker],
                      js_add avgLat (lat (markerData marker)),
                      js_add avgLng (lon (markerData marker))))
                  (acc, a, b) children)
     = acc @ map markerData children"
  by (induction children arbitrary: acc a b) simp_all

lemma clusterclick_markers: "markers (clusterclick leaflet_id children) = map markerData children"
  using clusterclick_foldl_contained [of "[]" "Some 0" "Some 0" children]
  by (auto simp add: clusterclick_def split: prod.splits)

lemma example_cluster_markers:
  assumes "1 \<le> a"
  shows "markers (example_cluster a n) = map (\<lambda>i. example_point (int i)) [a..<a + n]"
proof -
  have "filter renderable (map (\<lambda>i. example_point (int i)) [a..<a + n])
          = map (\<lambda>i. example_point (int i)) [a..<a + n]"
    using assms by (auto simp: filter_id_conv renderable_def falsy_def example_point_def)
  then show ?thesis
    by (simp add: example_cluster_def clusterclick_markers mountMap_markers_eq comp_def)
qed

lemma example_cluster_length: "1 \<le> a \<Longrightarrow> length (markers (example_cluster a n)) = n"
  by (simp add: example_cluster_markers)

lemma example_cluster_ids:
  assumes "1 \<le> a" and "m \<in> set (markers (example_cluster a n))"
  shows "\<exists>i. a \<le> i \<and> i < a + n \<and> m_id m = Some (int i)"
  using assms by (auto simp: example_cluster_markers example_point_def)

lemma example_cluster_disjoint:
  assumes "1 \<le> a" and "a + n \<le> b"
  shows "set (markers (example_cluster a n)) \<inter> set (markers (example_cluster b n')) = {}"
proof -
  have "1 \<le> b" using assms by simp
  then show ?thesis
    using example_cluster_ids [OF assms(1), of _ n] example_cluster_ids [OF \<open>1 \<le> b\<close>, of _ n'] assms(2)
    by fastforce
qed

text \<open>
  C1 (the code at the failing input): a Selection of 30 members is opened and paged to
  page 2; then a Selection of 60 members is opened while the first is open. The reset
  sets the page to 1 and shows 25 members, but the page effect of the same render
  schedules a reveal for the old page 2. After that delay the component is settled with
  nothing pending, on page 1 with 50 visible members, not \<open>min (1 * 25) 60 = 25\<close>.
\<close>

theorem stale_reveal_after_replacing_selection:
  "settled (run replace_after_paging mounted)
   \<and> timeouts (run replace_after_paging mounted) = []
   \<and> loadingMore (cur (run replace_after_paging mounted)) = False
   \<and> map_option snd (selectedCluster (cur (run replace_after_paging mounted)))
       = Some (example_cluster 101 60)
   \<and> length (markers (example_cluster 101 60)) = 60
   \<and> page (cur (run replace_after_paging mounted)) = 1
   \<and> revealedCount (run replace_after_paging mounted) = 50
   \<and> revealedCount (run replace_after_paging mounted)
       \<noteq> min (page (cur (run replace_after_paging mounted)) * MARKERS_PER_PAGE)
             (length (markers (example_cluster 101 60)))"
proof -
  have "MARKERS_PER_PAGE < length (markers (example_cluster 1 30))"
    by (simp add: example_cluster_length MARKERS_PER_PAGE_def)
  from run_replace_after_paging [OF this, of "example_cluster 101 60"] show ?thesis
    by (simp add: replace_after_paging_def settled_def revealedCount_def example_cluster_length
        MARKERS_PER_PAGE_def)
qed

text \<open>
  C6 (the code at the failing input): a Selection of 60 members is opened and scrolled
  to the bottom; within the delay of that reveal the panel is closed and a Selection of
  3 other members is opened. When the pending reveal completes, the open panel of the
  new Selection lists 50 members of the previous Selection and none of its own.
\<close>

theorem close_reopen_shows_previous_members:
  "map_option snd (selectedCluster (cur (run close_and_reopen mounted)))
       = Some (example_cluster 101 3)
   \<and> showPanel (cur (run close_and_reopen mounted))
   \<and> visibleMarkers (cur (run close_and_reopen mounted)) = take 50 (markers (example_cluster 1 60))
   \<and> length (visibleMarkers (cur (run close_and_reopen mounted))) = 50
   \<and> set (visibleMarkers (cur (run close_and_reopen mounted)))
        \<inter> set (markers (example_cluster 101 3)) = {}"
proof -
  have "MARKERS_PER_PAGE < length (markers (example_cluster 1 60))"
    by (simp add: example_cluster_length MARKERS_PER_PAGE_def)
  from run_close_reopen [OF this, of "example_cluster 101 3"]
  have r: "run close_and_reopen mounted = leaked (example_cluster 1 60) (example_cluster 101 3)"
    by (simp add: close_and_reopen_def)
  have "set (take 50 (markers (example_cluster 1 60))) \<inter> set (markers (example_cluster 101 3)) = {}"
    using example_cluster_disjoint [of 1 60 101 3] set_take_subset [of 50 "markers (example_cluster 1 60)"]
    by auto
  then show ?thesis
    by (simp add: r leaked_def example_cluster_length MARKERS_PER_PAGE_def)
qed

text \<open>
  C10 (the code at the failing inputs): when a Selection is replaced while a reveal is
  pending, the visible members are 50 members of the previous Selection, which is no
  prefix of the members of the current one; and when the panel is closed and reopened
  within the delays, the last pending reveal completes after the close callback and
  leaves 50 visible members and \<open>hasMore\<close> set although no Selection exists.
\<close>

theorem visible_members_not_of_selection:
  "map_option snd (selectedCluster (cur (run replace_while_loading mounted)))
       = Some (example_cluster 101 60)
   \<and> \<not> (\<exists>n. visibleMarkers (cur (run replace_while_loading mounted))
              = take n (markers (example_cluster 101 60)))
   \<and> selectedCluster (cur (run reopen_then_closed mounted)) = None
   \<and> length (visibleMarkers (cur (run reopen_then_closed mounted))) = 50
   \<and> hasMore (cur (run reopen_then_closed mounted))"
proof -
  have big: "MARKERS_PER_PAGE < length (markers (example_cluster 1 60))"
    by (simp add: example_cluster_length MARKERS_PER_PAGE_def)
  from run_replace_while_loading [OF big, of "example_cluster 101 60"]
  have a: "selectedCluster (cur (run replace_while_loading mounted)) = Some (1, example_cluster 101 60)"
    "visibleMarkers (cur (run replace_while_loading mounted)) = take 50 (markers (example_cluster 1 60))"
    by (simp_all add: replace_while_loading_def MARKERS_PER_PAGE_def)
  have first: "example_point 1 \<in> set (take 50 (markers (example_cluster 1 60)))"
    by (simp add: example_cluster_markers upt_conv_Cons)
  have "\<not> (\<exists>n. take 50 (markers (example_cluster 1 60)) = take n (markers (example_cluster 101 60)))"
  proof
    assume "\<exists>n. take 50 (markers (example_cluster 1 60)) = take n (markers (example_cluster 101 60))"
    then obtain n where "take 50 (markers (example_cluster 1 60)) = take n (markers (example_cluster 101 60))"
      by blast
    with first have "example_point 1 \<in> set (markers (example_cluster 101 60))"
      using set_take_subset [of n "markers (example_cluster 101 60)"] by auto
    moreover have "example_point 1 \<in> set (markers (example_cluster 1 60))"
      using first set_take_subset [of 50 "markers (example_cluster 1 60)"] by auto
    ultimately show False
      using example_cluster_disjoint [of 1 60 101 60] by auto
  qed
  moreover
  from run_close_reopen_closed [OF big, of "example_cluster 101 60"]
  have "selectedCluster (cur (run reopen_then_closed mounted)) = None"
    "length (visibleMarkers (cur (run reopen_then_closed mounted))) = 50"
    "hasMore (cur (run reopen_then_closed mounted))"
    by (simp_all add: reopen_then_closed_def example_cluster_length MARKERS_PER_PAGE_def)
  ultimately show ?thesis
    using a by simp
qed

text \<open>
  After a selection replaced while a reveal was pending, the first reveal completes and
  clears \<open>loadingMore\<close> although the reveal scheduled for the new selection is still
  pending; the next scroll to the bottom passes the guard and schedules another one.
\<close>

lemma run_scroll_after_replacing:
  assumes "2 * MARKERS_PER_PAGE < length (markers c)"
  shows "run [Select c, near_bottom, Select c', Timeout, near_bottom] mounted =
     \<lparr> cur = \<lparr> selectedCluster = Some (1, c'),
               visibleMarkers = take (2 * MARKERS_PER_PAGE) (markers c), page = 2,
               hasMore = True, showPanel = True, loadingMore = True \<rparr>,
       rendered = Some \<lparr> selectedCluster = Some (1, c'),
               visibleMarkers = take (2 * MARKERS_PER_PAGE) (markers c), page = 2,
               hasMore = True, showPanel = True, loadingMore = True \<rparr>,
       timeouts = [Reveal 2 c', Reveal 2 c'],
       listener = Some (True, True), fresh = 2 \<rparr>"
proof -
  have big: "MARKERS_PER_PAGE < length (markers c)"
    using assms by simp
  let ?k4 = "run [Select c, near_bottom, Select c', Timeout] mounted"
  have k4: "?k4 =
     \<lparr> cur = \<lparr> selectedCluster = Some (1, c'),
               visibleMarkers = take (2 * MARKERS_PER_PAGE) (markers c), page = 1,
               hasMore = True, showPanel = True, loadingMore = False \<rparr>,
       rendered = Some \<lparr> selectedCluster = Some (1, c'),
               visibleMarkers = take (2 * MARKERS_PER_PAGE) (markers c), page = 1,
               hasMore = True, showPanel = True, loadingMore = False \<rparr>,
       timeouts = [Reveal 2 c'],
       listener = Some (False, True), fresh = 2 \<rparr>"
    using assms by (simp add: run_replace_while_loading [OF big])
  have "step (Scroll 5700 6100 400) ?k4 =
     \<lparr> cur = \<lparr> selectedCluster = Some (1, c'),
               visibleMarkers = take (2 * MARKERS_PER_PAGE) (markers c), page = 2,
               hasMore = True, showPanel = True, loadingMore = True \<rparr>,
       rendered = Some \<lparr> selectedCluster = Some (1, c'),
               visibleMarkers = take (2 * MARKERS_PER_PAGE) (markers c), page = 2,
               hasMore = True, showPanel = True, loadingMore = True \<rparr>,
       timeouts = [Reveal 2 c', Reveal 2 c'],
       listener = Some (True, True), fresh = 2 \<rparr>"
    by (subst step_Scroll_trigger [of ?k4 1 c' 6100 5700 400])
       (simp_all add: k4 settled_def)
  moreover have "run [Select c, near_bottom, Select c', Timeout, near_bottom] mounted
      = step near_bottom ?k4"
    by (simp add: run_Cons run_Nil)
  ultimately show ?thesis
    by (simp add: near_bottom_def)
qed

text \<open>
  C9 (the code at the failing input): a cluster of 80 points is opened and scrolled to
  the bottom; a cluster of 80 other points is opened while that reveal is pending, and
  the page effect schedules a reveal for it as well. When the first reveal completes,
  \<open>loadingMore\<close> is cleared while the second is still in flight (one pending timeout,
  the flag not set), and a scroll to the bottom passes the guard: it advances the page
  and starts another reveal, so two reveals are in flight.
\<close>

theorem scroll_starts_reveal_while_one_pending:
  "selectedCluster (cur (run (butlast scroll_after_replacing) mounted)) \<noteq> None
   \<and> showPanel (cur (run (butlast scroll_after_replacing) mounted))
   \<and> reveals_in_flight (run (butlast scroll_after_replacing) mounted) = 1
   \<and> loadingMore (cur (run (butlast scroll_after_replacing) mounted)) = False
   \<and> page (cur (run (butlast scroll_after_replacing) mounted)) = 1
   \<and> page (cur (run scroll_after_replacing mounted)) = 2
   \<and> timeouts (run scroll_after_replacing mounted)
       = [Reveal 2 (example_cluster 101 80), Reveal 2 (example_cluster 101 80)]
   \<and> reveals_in_flight (run scroll_after_replacing mounted) = 2"
proof -
  have big: "MARKERS_PER_PAGE < length (markers (example_cluster 1 80))"
    "2 * MARKERS_PER_PAGE < length (markers (example_cluster 1 80))"
    by (simp_all add: example_cluster_length MARKERS_PER_PAGE_def)
  have "butlast scroll_after_replacing =
      [Select (example_cluster 1 80), near_bottom, Select (example_cluster 101 80), Timeout]"
    by (simp add: scroll_after_replacing_def)
  then show ?thesis
    using run_replace_while_loading [OF big(1), of "example_cluster 101 80"]
      run_scroll_after_replacing [OF big(2), of "example_cluster 101 80"]
    by (simp add: scroll_after_replacing_def reveals_in_flight_def)
qed

subsection \<open>What holds for a first selection\<close>

lemma paginated_open: "paginated c (step (Select c) mounted)"
  by (simp add: open_from_mounted paginated_def settled_def Let_def)

lemma paginated_Timeout:
  assumes "paginated c k"
  shows "paginated c (step Timeout k)"
proof (cases "loadingMore (cur k)")
  case False
  then have "settled k" "timeouts k = []"
    using assms by (simp_all add: paginated_def)
  then have "step Timeout k = k"
    by (rule step_Timeout_none)
  then show ?thesis
    using assms by simp
next
  case True
  then have t: "timeouts k = Reveal (page (cur k)) c # []"
    using assms by (simp add: paginated_def)
  have s: "settled k" using assms by (simp add: paginated_def)
  show ?thesis
    unfolding step_Timeout_Reveal [OF s t True]
    using assms by (simp add: paginated_def settled_def Let_def)
qed

lemma paginated_Scroll:
  assumes "paginated c k"
  shows "paginated c (step (Scroll scrollTop scrollHeight clientHeight) k)"
proof (cases "listener k = Some (False, True) \<and> scrollHeight - scrollTop - clientHeight < 100")
  case True
  have g: "settled k" "selectedCluster (cur k) = Some (0, c)" "\<not> loadingMore (cur k)"
    "1 \<le> page (cur k)"
    using assms True by (auto simp: paginated_def)
  have "step (Scroll scrollTop scrollHeight clientHeight) k =
           k\<lparr> cur := (cur k)\<lparr> page := page (cur k) + 1, loadingMore := True \<rparr>,
              rendered := Some ((cur k)\<lparr> page := page (cur k) + 1, loadingMore := True \<rparr>),
              timeouts := timeouts k @ [Reveal (page (cur k) + 1) c],
              listener := Some (True, hasMore (cur k)) \<rparr>"
    using step_Scroll_trigger [OF g(1) g(2) _ _ g(3) g(4)] True by simp
  then show ?thesis
    using assms g(3) by (simp add: paginated_def settled_def)
next
  case False
  have "settled k" using assms by (simp add: paginated_def)
  moreover have l: "listener k = None \<or> listener k = Some (loadingMore (cur k), hasMore (cur k))"
    using assms by (simp add: paginated_def)
  have "listener k = None
      \<or> listener k = Some (loadingMore (cur k), hasMore (cur k)) \<and> (loadingMore (cur k) \<or> \<not> hasMore (cur k))
      \<or> \<not> scrollHeight - scrollTop - clientHeight < 100"
    using l False by (cases "loadingMore (cur k)"; cases "hasMore (cur k)") auto
  ultimately have "step (Scroll scrollTop scrollHeight clientHeight) k = k"
    by (rule step_Scroll_blocked)
  then show ?thesis using assms by simp
qed

lemma paginated_run:
  assumes "paginated c k" and "list_all scroll_or_timeout es"
  shows "paginated c (run es k)"
  using assms
proof (induction es arbitrary: k)
  case Nil
  then show ?case by (simp add: run_Nil)
next
  case (Cons e es)
  then have "paginated c (step e k)"
    by (cases e) (simp_all add: paginated_Scroll paginated_Timeout)
  with Cons show ?case by (simp add: run_Cons)
qed

text \<open>
  For the first Selection after mounting, followed by scroll events and timeouts only,
  the pagination invariant of the specification holds whenever no reveal is pending,
  and the visible members are always a prefix of the members of the Selection.
\<close>

lemma first_selection_paginated:
  assumes "list_all scroll_or_timeout es"
  shows "(\<not> loadingMore (cur (run (Select c # es) mounted)) \<longrightarrow>
            revealedCount (run (Select c # es) mounted)
              = min (page (cur (run (Select c # es) mounted)) * MARKERS_PER_PAGE)
                    (length (markers c))
          \<and> hasMore (cur (run (Select c # es) mounted))
              = (revealedCount (run (Select c # es) mounted) < length (markers c)))
       \<and> (\<exists>n. visibleMarkers (cur (run (Select c # es) mounted)) = take n (markers c))"
proof -
  let ?k = "run es (step (Select c) mounted)"
  have p: "paginated c ?k"
    using paginated_open assms by (rule paginated_run)
  have "\<exists>n. visibleMarkers (cur ?k) = take n (markers c)"
    using p by (cases "loadingMore (cur ?k)") (auto simp: paginated_def)
  moreover have "\<not> loadingMore (cur ?k) \<longrightarrow>
            revealedCount ?k = min (page (cur ?k) * MARKERS_PER_PAGE) (length (markers c))
          \<and> hasMore (cur ?k) = (revealedCount ?k < length (markers c))"
    using p by (auto simp add: paginated_def revealedCount_def)
  ultimately show ?thesis
    by (simp add: run_Cons)
qed

text \<open>
  A click on a rendered marker: the panel opens with that one member and nothing more
  to load.
\<close>

lemma marker_click_single_member:
  "visibleMarkers (cur (step (Select (markerClick m)) mounted)) = [m]
   \<and> hasMore (cur (step (Select (markerClick m)) mounted)) = False
   \<and> showPanel (cur (step (Select (markerClick m)) mounted))
   \<and> timeouts (step (Select (markerClick m)) mounted) = []"
  by (simp add: open_from_mounted markerClick_def MARKERS_PER_PAGE_def Let_def)

text \<open>
  The scenario of the specification: a cluster of 30 points opens with 25 visible
  members and more to load; after a scroll to the bottom and the delay all 30 are
  visible and nothing is left.
\<close>

lemma thirty_points_scenario:
  "revealedCount (run [Select (example_cluster 1 30)] mounted) = 25
   \<and> hasMore (cur (run [Select (example_cluster 1 30)] mounted))
   \<and> revealedCount (run [Select (example_cluster 1 30), near_bottom, Timeout] mounted) = 30
   \<and> hasMore (cur (run [Select (example_cluster 1 30), near_bottom, Timeout] mounted)) = False"
proof -
  have big: "MARKERS_PER_PAGE < length (markers (example_cluster 1 30))"
    by (simp add: example_cluster_length MARKERS_PER_PAGE_def)
  have "run [Select (example_cluster 1 30), near_bottom, Timeout] mounted
          = paged (example_cluster 1 30)"
    using run_open_scroll [OF big] step_Timeout_paging [of "example_cluster 1 30"]
    by (simp add: run_Cons run_Nil)
  then show ?thesis
    by (simp add: run_Cons run_Nil open_from_mounted paged_def revealedCount_def
        example_cluster_length MARKERS_PER_PAGE_def Let_def)
qed

end
